theory Spec2Isabelle
  imports Main
begin

section \<open>Values exchanged with the schema engine\<close>

text \<open>
  The validator of \<^verbatim>\<open>packages/core-crypto/src/validation/index.ts\<close> drives a JSON-schema
  engine (Ajv). Schemas and offending values are JSON values.
\<close>

datatype json =
    JNull
  | JBool bool
  | JNum int
  | JStr string
  | JArr "json list"
  | JObj "(string \<times> json) list"

text \<open>
  A schema object: its \<^verbatim>\<open>$id\<close> and its remaining members.
\<close>

record schema =
  dollar_id :: string
  members :: "(string \<times> json) list"

text \<open>
  The first argument of \<^verbatim>\<open>validate\<close>: \<^verbatim>\<open>string | boolean | object\<close>.
\<close>

datatype schemaKeyRef = KeyRef string | BoolRef bool | ObjRef json

text \<open>
  The fields of an engine error object that \<^verbatim>\<open>applySchema\<close> reads.
\<close>

record errorObject =
  dataPath :: string
  message :: string
  data :: json

text \<open>
  \<^verbatim>\<open>ITransactionData\<close> and \<^verbatim>\<open>IBlockData\<close>, with the fields the validator reads; the
  identifiers are optional, and so is the array of transactions.
\<close>

record transactionData =
  tx_id :: "string option"
  tx_payload :: json

record blockData =
  block_id :: "string option"
  height :: int
  transactions :: "transactionData list option"
  payload :: json

text \<open>
  \<^verbatim>\<open>ISchemaValidationResult\<close>: \<^verbatim>\<open>{ value, error, errors }\<close>, each possibly undefined.
\<close>

record validationResult =
  res_value :: "blockData option"
  res_error :: "string option"
  res_errors :: "errorObject list option"

text \<open>
  What the validator can throw: the structured \<^verbatim>\<open>BlockSchemaError(height, what)\<close>, the
  \<^verbatim>\<open>TypeError\<close> of reading a property of \<^verbatim>\<open>undefined\<close>, and an error raised by the engine
  while a schema is looked up or added.
\<close>

datatype error =
    BlockSchemaError int string
  | TypeError
  | EngineError string

section \<open>The engine instance\<close>

text \<open>
  The state of one Ajv instance as far as the validator depends on it: the options it
  was built with, the schemas registered by key, the names of its keywords and
  formats, and the \<^verbatim>\<open>errors\<close> property left by the last \<^verbatim>\<open>validate\<close>.
\<close>

record ajv =
  opts :: "(string \<times> json) list"
  ajv_schemas :: "(string \<times> schema) list"
  ajv_keywords :: "string list"
  ajv_formats :: "string list"
  ajv_errors :: "errorObject list option"

text \<open>
  One run of the engine's check either throws or returns and leaves its error list
  (\<^verbatim>\<open>null\<close> when the data is valid). A throw carries the \<^verbatim>\<open>stack\<close> property of the thrown
  value, which is \<^verbatim>\<open>undefined\<close> when the value has none (an error object that was not
  built by the \<^verbatim>\<open>Error\<close> constructor). Either way the data object can have been modified
  in place (\<^verbatim>\<open>removeAdditional\<close>).
\<close>

datatype checkOutcome =
    Throws "string option" blockData
  | Returns "errorObject list option" blockData

text \<open>
  The calls on the schema store of the engine that can throw for a reason the model
  does not compute: \<^verbatim>\<open>addSchema\<close> on a schema that the meta-schema rejects, \<^verbatim>\<open>getSchema\<close> on
  a stored schema that does not compile.
\<close>

datatype engineCall = AddSchema schema | GetSchema string

section \<open>What the module imports\<close>

text \<open>
  The collaborators that \<^verbatim>\<open>index.ts\<close> imports or is constructed with, taken as
  parameters: the exception oracle of the crypto manager
  (\<^verbatim>\<open>cryptoManager.LibraryManager.Utils.isException\<close>), the members of the built-in
  \<^verbatim>\<open>block\<close> schema and the other built-in schemas under the keys the engine keeps them,
  the names that \<^verbatim>\<open>ajvKeywords\<close> and the installers of \<^verbatim>\<open>./keywords\<close> and \<^verbatim>\<open>./formats\<close>
  register, the members of the signed and of the strict variant of a schema, the reason
  the engine has to refuse a call on its schema store (\<open>None\<close> when it has none), the
  engine's check and \<^verbatim>\<open>errorsText\<close>, and \<^verbatim>\<open>JSON.stringify\<close>.
\<close>

record externals =
  isException :: "string option \<Rightarrow> bool"
  block_members :: "(string \<times> json) list"
  schemas_others :: "(string \<times> schema) list"
  package_keywords :: "string list"
  keywords_mod :: "string list"
  formats_mod :: "string list"
  signed_members :: "schema \<Rightarrow> (string \<times> json) list"
  strict_members :: "schema \<Rightarrow> (string \<times> json) list"
  engine_refuses :: "ajv \<Rightarrow> engineCall \<Rightarrow> string option"
  engine_check :: "ajv \<Rightarrow> schemaKeyRef \<Rightarrow> blockData \<Rightarrow> checkOutcome"
  errorsText :: "ajv \<Rightarrow> string"
  stringify :: "json \<Rightarrow> string"

text \<open>
  Modelled from the spec: \<^verbatim>\<open>schemas\<close> of \<^verbatim>\<open>./schemas\<close> is not among the sources. The
  built-in schema of a block is registered as \<^verbatim>\<open>block\<close> (spec, section 3: a schema id
  is \<^verbatim>\<open>block\<close>, \<^verbatim>\<open>transactions\<close> or the id of a transaction type, possibly with the suffix
  \<^verbatim>\<open>Signed\<close> or \<^verbatim>\<open>Strict\<close>; section 4.1: the \<^verbatim>\<open>block\<close> schema is added again at every
  rebuild).
\<close>

definition schemas_block :: "externals \<Rightarrow> schema" where
  "schemas_block ext = \<lparr>dollar_id = ''block'', members = block_members ext\<rparr>"

definition schemas :: "externals \<Rightarrow> (string \<times> schema) list" where
  "schemas ext = (''block'', schemas_block ext) # schemas_others ext"

text \<open>
  Modelled from the spec: \<^verbatim>\<open>signedSchema\<close> and \<^verbatim>\<open>strictSchema\<close> are not among the sources.
  They give the signed and the strict variant of a transaction schema, whose id is the id
  of the schema with the suffix \<^verbatim>\<open>Signed\<close> or \<^verbatim>\<open>Strict\<close> (spec, sections 3 and 4.1); these are
  the keys that the source removes and that the composite schema refers to.
\<close>

definition signedSchema :: "externals \<Rightarrow> schema \<Rightarrow> schema" where
  "signedSchema ext s = \<lparr>dollar_id = dollar_id s @ ''Signed'', members = signed_members ext s\<rparr>"

definition strictSchema :: "externals \<Rightarrow> schema \<Rightarrow> schema" where
  "strictSchema ext s = \<lparr>dollar_id = dollar_id s @ ''Strict'', members = strict_members ext s\<rparr>"

text \<open>
  Modelled from the spec: \<^verbatim>\<open>ajvKeywords\<close> and the installers of \<^verbatim>\<open>./keywords\<close> and
  \<^verbatim>\<open>./formats\<close> are not among the sources. Each registers custom keywords or formats on
  the engine it is given (spec, sections 4.5 and 6); the model keeps their names.
\<close>

definition ajvKeywords :: "externals \<Rightarrow> ajv \<Rightarrow> ajv" where
  "ajvKeywords ext a = a\<lparr>ajv_keywords := ajv_keywords a @ package_keywords ext\<rparr>"

definition ajv_addKeyword :: "string \<Rightarrow> ajv \<Rightarrow> ajv" where
  "ajv_addKeyword keyword a = a\<lparr>ajv_keywords := ajv_keywords a @ [keyword]\<rparr>"

definition ajv_addFormat :: "string \<Rightarrow> ajv \<Rightarrow> ajv" where
  "ajv_addFormat name a = a\<lparr>ajv_formats := ajv_formats a @ [name]\<rparr>"

section \<open>The schema store of the engine\<close>

text \<open>
  The engine keeps a schema under its normalized key: the key without a trailing
  \<^verbatim>\<open>#\<close> or \<^verbatim>\<open>#/\<close>. \<open>ajv_lookup\<close> is what the engine holds for a key.
\<close>

definition normalizeId :: "string \<Rightarrow> string" where
  "normalizeId i =
     (case rev i of
        c1 # c2 # r \<Rightarrow>
          (if c1 = CHR ''/'' \<and> c2 = CHR ''#'' then rev r
           else if c1 = CHR ''#'' then rev (c2 # r)
           else i)
      | [c1] \<Rightarrow> (if c1 = CHR ''#'' then [] else i)
      | [] \<Rightarrow> [])"

definition ajv_lookup :: "ajv \<Rightarrow> string \<Rightarrow> schema option" where
  "ajv_lookup a key = map_of (ajv_schemas a) (normalizeId key)"

text \<open>
  \<^verbatim>\<open>getSchema(key)\<close> gives the compiled schema held for the key, or \<^verbatim>\<open>undefined\<close>; it throws
  when the engine refuses the call.
\<close>

definition ajv_getSchema :: "externals \<Rightarrow> ajv \<Rightarrow> string \<Rightarrow> error + schema option" where
  "ajv_getSchema ext a key =
     (case engine_refuses ext a (GetSchema key) of
        Some reason \<Rightarrow> Inl (EngineError reason)
      | None \<Rightarrow> Inr (ajv_lookup a key))"

text \<open>
  \<^verbatim>\<open>removeSchema(key)\<close> with a string deletes the entry stored under that very string.
\<close>

definition ajv_removeSchema :: "ajv \<Rightarrow> string \<Rightarrow> ajv" where
  "ajv_removeSchema a key =
     a\<lparr>ajv_schemas := filter (\<lambda>e. fst e \<noteq> key) (ajv_schemas a)\<rparr>"

text \<open>
  \<^verbatim>\<open>addSchema(schema)\<close> registers the schema under its normalized \<^verbatim>\<open>$id\<close>. It throws when
  that key is already registered, and when the engine refuses the schema.
\<close>

definition ajv_addSchema :: "externals \<Rightarrow> ajv \<Rightarrow> schema \<Rightarrow> error + ajv" where
  "ajv_addSchema ext a s =
     (if ajv_lookup a (dollar_id s) \<noteq> None
      then Inl (EngineError (''schema with key or id '' @ [CHR 0x22] @ normalizeId (dollar_id s)
                               @ [CHR 0x22] @ '' already exists''))
      else (case engine_refuses ext a (AddSchema s) of
              Some reason \<Rightarrow> Inl (EngineError reason)
            | None \<Rightarrow>
                Inr (a\<lparr>ajv_schemas := ajv_schemas a @ [(normalizeId (dollar_id s), s)]\<rparr>)))"

section \<open>The registry: a JavaScript Map\<close>

text \<open>
  \<^verbatim>\<open>transactionSchemas\<close> is a \<^verbatim>\<open>Map\<close>, and \<^verbatim>\<open>validateException\<close> iterates over it while
  the loop body deletes from it and sets into it. The model is the list of entries of
  the language specification: \<^verbatim>\<open>delete\<close> empties the entry where it stands, \<^verbatim>\<open>set\<close>
  overwrites the value of an existing key in place and appends a new key, and an
  iterator walks the list by index, skipping emptied entries and seeing appended ones.
\<close>

type_synonym 'v jsmap = "(string \<times> 'v) option list"

definition map_keys :: "'v jsmap \<Rightarrow> string list" where
  "map_keys m = List.map_filter (map_option fst) m"

definition map_delete :: "string \<Rightarrow> 'v jsmap \<Rightarrow> 'v jsmap" where
  "map_delete k m =
     map (\<lambda>e. case e of None \<Rightarrow> None | Some kv \<Rightarrow> if fst kv = k then None else Some kv) m"

definition map_set :: "string \<Rightarrow> 'v \<Rightarrow> 'v jsmap \<Rightarrow> 'v jsmap" where
  "map_set k v m =
     (if k \<in> set (map_keys m)
      then map (\<lambda>e. case e of None \<Rightarrow> None
                     | Some kv \<Rightarrow> if fst kv = k then Some (k, v) else Some kv) m
      else m @ [Some (k, v)])"

section \<open>The validator\<close>

text \<open>
  The calls the validator makes to its collaborators, in order. This history is not a
  field of the source class: it records what the code does to the outside, so that
  ``without consulting the oracle'' is a statement about a run.
\<close>

datatype call =
    NewEngine "(string \<times> json) list"
  | EngineValidate schemaKeyRef
  | IsException "string option"

record validator =
  ajv :: ajv
  transactionSchemas :: "schema jsmap"
  history :: "call list"

text \<open>Object spread \<^verbatim>\<open>{...a, ...b}\<close> on option objects.\<close>

fun assign :: "string \<Rightarrow> json \<Rightarrow> (string \<times> json) list \<Rightarrow> (string \<times> json) list" where
  "assign k v [] = [(k, v)]"
| "assign k v (e # es) = (if fst e = k then (k, v) # es else e # assign k v es)"

definition spread ::
  "(string \<times> json) list \<Rightarrow> (string \<times> json) list \<Rightarrow> (string \<times> json) list" where
  "spread a b = foldl (\<lambda>acc e. assign (fst e) (snd e) acc) a b"

text \<open>
  \<^verbatim>\<open>instantiateAjv\<close>: a new engine with the built-in schemas and the defaults overridden by
  the given options, then \<^verbatim>\<open>ajvKeywords\<close>, every keyword installer and every format
  installer.
\<close>

definition instantiateAjv :: "externals \<Rightarrow> (string \<times> json) list \<Rightarrow> ajv" where
  "instantiateAjv ext options =
     (let a0 = \<lparr>opts = spread [(''$data'', JBool True), (''removeAdditional'', JBool True),
                               (''extendRefs'', JBool True)] options,
                ajv_schemas = schemas ext,
                ajv_keywords = [],
                ajv_formats = [],
                ajv_errors = None\<rparr>;
          a1 = ajvKeywords ext a0;
          a2 = foldl (\<lambda>a keyword. ajv_addKeyword keyword a) a1 (keywords_mod ext)
      in foldl (\<lambda>a name. ajv_addFormat name a) a2 (formats_mod ext))"

definition make :: "externals \<Rightarrow> (string \<times> json) list \<Rightarrow> validator" where
  "make ext options =
     \<lparr>ajv = instantiateAjv ext options, transactionSchemas = [],
      history = [NewEngine options]\<rparr>"

text \<open>
  \<^verbatim>\<open>validateSchema\<close>: run the engine's check inside \<^verbatim>\<open>try\<close>. When it returns, the engine's
  \<^verbatim>\<open>errors\<close> property holds the error list; the result carries the data object, the
  error text when \<^verbatim>\<open>ajv.errors\<close> is truthy, and \<^verbatim>\<open>ajv.errors || undefined\<close>. When it
  throws, the result is \<^verbatim>\<open>{ value: undefined, error: error.stack, errors: [] }\<close>, where
  \<^verbatim>\<open>error.stack\<close> is \<^verbatim>\<open>undefined\<close> for a thrown value without stack.
  The function returns the engine and the data object as the call left them.
\<close>

definition validateSchema ::
  "externals \<Rightarrow> ajv \<Rightarrow> schemaKeyRef \<Rightarrow> blockData \<Rightarrow> ajv \<times> blockData \<times> validationResult" where
  "validateSchema ext a schemaKeyRef d =
     (case engine_check ext a schemaKeyRef d of
        Returns es d' \<Rightarrow>
          (let a' = a\<lparr>ajv_errors := es\<rparr>
           in (a', d',
               \<lparr>res_value = Some d',
                res_error = (if ajv_errors a' \<noteq> None then Some (errorsText ext a') else None),
                res_errors = ajv_errors a'\<rparr>))
      | Throws stack d' \<Rightarrow>
          (a, d', \<lparr>res_value = None, res_error = stack, res_errors = Some []\<rparr>))"

definition validate ::
  "externals \<Rightarrow> validator \<Rightarrow> schemaKeyRef \<Rightarrow> blockData
     \<Rightarrow> validator \<times> blockData \<times> validationResult" where
  "validate ext v schemaKeyRef d =
     (case validateSchema ext (ajv v) schemaKeyRef d of
        (a', d', r) \<Rightarrow>
          (v\<lparr>ajv := a',
             history := history v @ [EngineValidate schemaKeyRef]\<rparr>, d', r))"

text \<open>
  \<^verbatim>\<open>updateTransactionArray\<close>: drop \<^verbatim>\<open>block\<close> and \<^verbatim>\<open>transactions\<close>, add the composite array
  schema built from the keys of the registry, then add the \<^verbatim>\<open>block\<close> schema again. The
  result is the engine and the error of an \<^verbatim>\<open>addSchema\<close> that threw, if one did.
\<close>

definition transactions_schema :: "string list \<Rightarrow> schema" where
  "transactions_schema ks =
     \<lparr>dollar_id = ''transactions'',
      members = [(''type'', JStr ''array''),
                 (''additionalItems'', JBool False),
                 (''items'', JObj [(''anyOf'',
                    JArr (map (\<lambda>schema. JObj [(''$ref'', JStr (schema @ ''Signed''))]) ks))])]\<rparr>"

definition updateTransactionArray ::
  "externals \<Rightarrow> schema jsmap \<Rightarrow> ajv \<Rightarrow> ajv \<times> error option" where
  "updateTransactionArray ext reg a =
     (let a1 = ajv_removeSchema a ''block'';
          a2 = ajv_removeSchema a1 ''transactions''
      in case ajv_addSchema ext a2 (transactions_schema (map_keys reg)) of
           Inl e \<Rightarrow> (a2, Some e)
         | Inr a3 \<Rightarrow>
             (case ajv_addSchema ext a3 (schemas_block ext) of
                Inl e \<Rightarrow> (a3, Some e)
              | Inr a4 \<Rightarrow> (a4, None)))"

text \<open>
  \<^verbatim>\<open>extendTransactionSchema(ajv, schema, remove)\<close> works on the registry of the validator
  and on the engine it is given. It returns both as the call left them, and the error
  of a \<^verbatim>\<open>getSchema\<close> or an \<^verbatim>\<open>addSchema\<close> that threw, if one did.
\<close>

definition extendTransactionSchema ::
  "externals \<Rightarrow> schema jsmap \<Rightarrow> ajv \<Rightarrow> schema \<Rightarrow> bool \<Rightarrow> (schema jsmap \<times> ajv) \<times> error option" where
  "extendTransactionSchema ext reg a s remove0 =
     (case ajv_getSchema ext a (dollar_id s) of
        Inl e \<Rightarrow> ((reg, a), Some e)
      | Inr found \<Rightarrow>
          (let remove = (if found \<noteq> None then True else remove0);
               reg1 = (if remove then map_delete (dollar_id s) reg else reg);
               a1 = (if remove
                     then ajv_removeSchema
                            (ajv_removeSchema (ajv_removeSchema a (dollar_id s))
                               (dollar_id s @ ''Signed''))
                            (dollar_id s @ ''Strict'')
                     else a);
               reg2 = map_set (dollar_id s) s reg1
           in case ajv_addSchema ext a1 s of
                Inl e \<Rightarrow> ((reg2, a1), Some e)
              | Inr a2 \<Rightarrow>
                  (case ajv_addSchema ext a2 (signedSchema ext s) of
                     Inl e \<Rightarrow> ((reg2, a2), Some e)
                   | Inr a3 \<Rightarrow>
                       (case ajv_addSchema ext a3 (strictSchema ext s) of
                          Inl e \<Rightarrow> ((reg2, a3), Some e)
                        | Inr a4 \<Rightarrow>
                            (case updateTransactionArray ext reg2 a4 of
                               (a5, r) \<Rightarrow> ((reg2, a5), r))))))"

text \<open>
  \<^verbatim>\<open>extendTransaction(schema, remove)\<close>: the same on the default engine.
\<close>

definition extendTransaction ::
  "externals \<Rightarrow> validator \<Rightarrow> schema \<Rightarrow> bool \<Rightarrow> validator \<times> error option" where
  "extendTransaction ext v s remove =
     (case extendTransactionSchema ext (transactionSchemas v) (ajv v) s remove of
        ((reg', a'), r) \<Rightarrow> (v\<lparr>ajv := a', transactionSchemas := reg'\<rparr>, r))"

text \<open>
  The pass-through registration points \<^verbatim>\<open>addSchema(schema)\<close> and
  \<^verbatim>\<open>removeSchema(key)\<close> of the validator, on the default engine.
\<close>

definition addSchema :: "externals \<Rightarrow> validator \<Rightarrow> schema \<Rightarrow> validator \<times> error option" where
  "addSchema ext v s =
     (case ajv_addSchema ext (ajv v) s of
        Inl e \<Rightarrow> (v, Some e)
      | Inr a' \<Rightarrow> (v\<lparr>ajv := a'\<rparr>, None))"

definition removeSchema :: "validator \<Rightarrow> string \<Rightarrow> validator" where
  "removeSchema v key = v\<lparr>ajv := ajv_removeSchema (ajv v) key\<rparr>"

text \<open>
  The loop of \<^verbatim>\<open>validateException\<close>:
  \<^verbatim>\<open>for (const schema of this.transactionSchemas.values()) this.extendTransactionSchema(ajv, schema)\<close>.
  The iterator is live: \<open>i\<close> is its index into the entries of the registry, which the
  body changes. The loop need not end, so the function is partial: \<open>None\<close> is a run
  that never returns.
\<close>

partial_function (option) validateException_loop ::
  "externals \<Rightarrow> nat \<Rightarrow> schema jsmap \<Rightarrow> ajv \<Rightarrow> ((schema jsmap \<times> ajv) \<times> error option) option" where
  "validateException_loop ext i reg a =
     (if i < length reg
      then (case reg ! i of
              None \<Rightarrow> validateException_loop ext (Suc i) reg a
            | Some kv \<Rightarrow>
                (case extendTransactionSchema ext reg a (snd kv) False of
                   ((reg', a'), Some e) \<Rightarrow> Some ((reg', a'), Some e)
                 | ((reg', a'), None) \<Rightarrow> validateException_loop ext (Suc i) reg' a'))
      else Some ((reg, a), None))"

declare validateException_loop.simps [code]

text \<open>
  \<^verbatim>\<open>validateException\<close>: a new engine with \<^verbatim>\<open>allErrors\<close> and \<^verbatim>\<open>verbose\<close>, every registered
  transaction schema applied to it, then the check on that engine. An error thrown while
  the schemas are applied leaves the method before the check.
\<close>

definition validateException ::
  "externals \<Rightarrow> validator \<Rightarrow> schemaKeyRef \<Rightarrow> blockData
     \<Rightarrow> (validator \<times> blockData \<times> (error + validationResult)) option" where
  "validateException ext v schemaKeyRef d =
     (let options = [(''allErrors'', JBool True), (''verbose'', JBool True)];
          a = instantiateAjv ext options;
          v1 = v\<lparr>history := history v @ [NewEngine options]\<rparr>
      in case validateException_loop ext 0 (transactionSchemas v1) a of
           None \<Rightarrow> None
         | Some ((reg', a'), Some e) \<Rightarrow> Some (v1\<lparr>transactionSchemas := reg'\<rparr>, d, Inl e)
         | Some ((reg', a'), None) \<Rightarrow>
             (case validateSchema ext a' schemaKeyRef d of
                (a'', d', r) \<Rightarrow>
                  Some (v1\<lparr>transactionSchemas := reg',
                           history := history v1 @ [EngineValidate schemaKeyRef]\<rparr>,
                        d', Inr r)))"

section \<open>The top-level policy\<close>

text \<open>
  \<^verbatim>\<open>err.dataPath.match(/\.transactions\[([0-9]+)\]/)\<close>: the leftmost place where the
  path reads \<^verbatim>\<open>.transactions[\<close>, one or more digits and \<^verbatim>\<open>]\<close>; the result is the digits
  (\<^verbatim>\<open>match[1]\<close>), or \<open>None\<close> for \<^verbatim>\<open>null\<close>.
\<close>

definition is_digit :: "char \<Rightarrow> bool" where
  "is_digit c = (c \<in> set ''0123456789'')"

definition match_at :: "string \<Rightarrow> string option" where
  "match_at s =
     (if take 14 s = ''.transactions[''
      then (let digits = takeWhile is_digit (drop 14 s);
                after = dropWhile is_digit (drop 14 s)
            in if digits \<noteq> [] \<and> take 1 after = '']'' then Some digits else None)
      else None)"

fun match_transactions :: "string \<Rightarrow> string option" where
  "match_transactions [] = None"
| "match_transactions (c # cs) =
     (case match_at (c # cs) of
        Some digits \<Rightarrow> Some digits
      | None \<Rightarrow> match_transactions cs)"

text \<open>
  \<^verbatim>\<open>data.transactions[txIndex]\<close> with a string of digits as the property name: an element
  of the array when the string is the canonical decimal form of an index below the
  length, \<^verbatim>\<open>undefined\<close> otherwise.
\<close>

definition digit_value :: "char \<Rightarrow> nat" where
  "digit_value c = of_char c - 48"

definition index_of_digits :: "string \<Rightarrow> nat" where
  "index_of_digits ds = foldl (\<lambda>n c. 10 * n + digit_value c) 0 ds"

definition element_at :: "'a list \<Rightarrow> string \<Rightarrow> 'a option" where
  "element_at xs txIndex =
     (if (txIndex = ''0'' \<or> take 1 txIndex \<noteq> ''0'') \<and> index_of_digits txIndex < length xs
      then Some (xs ! index_of_digits txIndex)
      else None)"

text \<open>
  The body of the loop of \<^verbatim>\<open>applySchema\<close> up to the test of \<^verbatim>\<open>fatal\<close>: the value of
  \<^verbatim>\<open>fatal\<close>, or the \<^verbatim>\<open>TypeError\<close> of \<^verbatim>\<open>tx.id\<close> on an undefined \<^verbatim>\<open>tx\<close>. Each call of
  \<^verbatim>\<open>isException\<close> is recorded; \<^verbatim>\<open>tx.id === undefined || ...\<close> does not call it for a
  transaction without identifier.
\<close>

definition is_fatal ::
  "externals \<Rightarrow> validator \<Rightarrow> blockData \<Rightarrow> errorObject \<Rightarrow> validator \<times> (error + bool)" where
  "is_fatal ext v d err =
     (case match_transactions (dataPath err) of
        None \<Rightarrow>
          (v\<lparr>history := history v @ [IsException (block_id d)]\<rparr>,
           Inr (\<not> isException ext (block_id d)))
      | Some txIndex \<Rightarrow>
          (case transactions d of
             None \<Rightarrow> (v, Inr False)
           | Some txs \<Rightarrow>
               (case element_at txs txIndex of
                  None \<Rightarrow> (v, Inl TypeError)
                | Some tx \<Rightarrow>
                    (case tx_id tx of
                       None \<Rightarrow> (v, Inr True)
                     | Some i \<Rightarrow>
                         (v\<lparr>history := history v @ [IsException (Some i)]\<rparr>,
                          Inr (\<not> isException ext (Some i)))))))"

text \<open>
  The text of the failure:
  \<^verbatim>\<open>`Invalid data${err.dataPath ? " at " + err.dataPath : ""}: ${err.message}: ${JSON.stringify(err.data)}`\<close>.
\<close>

definition failure_text :: "externals \<Rightarrow> errorObject \<Rightarrow> string" where
  "failure_text ext err =
     ''Invalid data'' @ (if dataPath err \<noteq> [] then '' at '' @ dataPath err else [])
       @ '': '' @ message err @ '': '' @ stringify ext (data err)"

text \<open>
  \<^verbatim>\<open>for (const err of result.errors) { ... if (fatal) throw new BlockSchemaError(...) }\<close>.
\<close>

fun applySchema_loop ::
  "externals \<Rightarrow> validator \<Rightarrow> blockData \<Rightarrow> errorObject list \<Rightarrow> validator \<times> error option" where
  "applySchema_loop ext v d [] = (v, None)"
| "applySchema_loop ext v d (err # errs) =
     (case is_fatal ext v d err of
        (v', Inl e) \<Rightarrow> (v', Some e)
      | (v', Inr fatal) \<Rightarrow>
          (if fatal then (v', Some (BlockSchemaError (height d) (failure_text ext err)))
           else applySchema_loop ext v' d errs))"

text \<open>
  \<^verbatim>\<open>applySchema\<close>. \<^verbatim>\<open>!result.error\<close> holds for \<^verbatim>\<open>undefined\<close> and for the empty string;
  \<^verbatim>\<open>!result.errors\<close> holds for \<^verbatim>\<open>undefined\<close> only (an empty array is truthy). The result
  is the validator and the data object as the call left them, and what the call returned
  (\<open>Inr\<close>, the value possibly \<^verbatim>\<open>undefined\<close>) or threw (\<open>Inl\<close>); \<open>None\<close> is a call that never
  returns.
\<close>

definition applySchema ::
  "externals \<Rightarrow> validator \<Rightarrow> blockData
     \<Rightarrow> (validator \<times> blockData \<times> (error + blockData option)) option" where
  "applySchema ext v d =
     (case validate ext v (KeyRef ''block'') d of
        (v1, d1, result) \<Rightarrow>
          (if res_error result = None \<or> res_error result = Some []
           then Some (v1, d1, Inr (res_value result))
           else (case validateException ext v1 (KeyRef ''block'') d1 of
                   None \<Rightarrow> None
                 | Some (v2, d2, Inl e) \<Rightarrow> Some (v2, d2, Inl e)
                 | Some (v2, d2, Inr result2) \<Rightarrow>
                     (case res_errors result2 of
                        None \<Rightarrow> Some (v2, d2, Inr (res_value result2))
                      | Some errs \<Rightarrow>
                          (case applySchema_loop ext v2 d2 errs of
                             (v3, Some e) \<Rightarrow> Some (v3, d2, Inl e)
                           | (v3, None) \<Rightarrow> Some (v3, d2, Inr (res_value result2)))))))"

section \<open>Notions used in the statements\<close>

text \<open>
  The words of the specification for a path with a transaction segment: the path
  contains \<^verbatim>\<open>.transactions[\<close>, one or more digits and \<^verbatim>\<open>]\<close>.
\<close>

definition has_transactions_segment :: "string \<Rightarrow> bool" where
  "has_transactions_segment path =
     (\<exists>before digits after.
        path = before @ ''.transactions['' @ digits @ '']'' @ after
        \<and> digits \<noteq> [] \<and> (\<forall>c \<in> set digits. is_digit c))"

text \<open>
  A registry as the validator builds it: every entry stands under the \<^verbatim>\<open>$id\<close> of its
  schema (\<^verbatim>\<open>transactionSchemas.set(schema.$id, schema)\<close> is the only write), and no key is
  repeated.
\<close>

definition registry_wf :: "schema jsmap \<Rightarrow> bool" where
  "registry_wf reg =
     (list_all (\<lambda>e. case e of None \<Rightarrow> True | Some kv \<Rightarrow> fst kv = dollar_id (snd kv)) reg
      \<and> distinct (map_keys reg))"





abbreviation in_place :: "string \<Rightarrow> schema \<Rightarrow> schema jsmap \<Rightarrow> schema jsmap" where
  "in_place k v m \<equiv>
     map (\<lambda>e. case e of None \<Rightarrow> None
               | Some kv \<Rightarrow> if fst kv = k then Some (k, v) else Some kv) m"

section \<open>Example inputs\<close>

text \<open>
  An instance of the collaborators, used to run the definitions on concrete inputs: the
  oracle exempts the identifier \<^verbatim>\<open>grandfathered\<close> only, the built-in schemas are the
  \<^verbatim>\<open>block\<close> schema alone, the variants of a schema carry its members, the engine refuses
  no call on its schema store, and the engine's check is a parameter of the instance.
\<close>

definition example_externals ::
  "(ajv \<Rightarrow> schemaKeyRef \<Rightarrow> blockData \<Rightarrow> checkOutcome) \<Rightarrow> externals" where
  "example_externals check =
     \<lparr>isException = (\<lambda>i. i = Some ''grandfathered''),
      block_members = [],
      schemas_others = [],
      package_keywords = [''instanceof''],
      keywords_mod = [''bignumber''],
      formats_mod = [''vendorField''],
      signed_members = members,
      strict_members = members,
      engine_refuses = (\<lambda>a c. None),
      engine_check = check,
      errorsText = (\<lambda>a. ''data is invalid''),
      stringify = (\<lambda>j. ''null'')\<rparr>"

definition example_schema :: "string \<Rightarrow> schema" where
  "example_schema i = \<lparr>dollar_id = i, members = [(''type'', JStr ''object'')]\<rparr>"

definition example_block :: "string option \<Rightarrow> transactionData list option \<Rightarrow> blockData" where
  "example_block i txs = \<lparr>block_id = i, height = 5, transactions = txs, payload = JNull\<rparr>"

definition always_errors :: "errorObject list \<Rightarrow> ajv \<Rightarrow> schemaKeyRef \<Rightarrow> blockData \<Rightarrow> checkOutcome" where
  "always_errors es a r d = Returns (Some es) d"

definition example_error :: "string \<Rightarrow> errorObject" where
  "example_error p = \<lparr>dataPath = p, message = ''should be integer'', data = JNull\<rparr>"

definition example_validator :: "externals \<Rightarrow> validator" where
  "example_validator ext = fst (extendTransaction ext (make ext []) (example_schema ''transfer'') False)"


definition example_tx :: "string option \<Rightarrow> transactionData" where
  "example_tx i = \<lparr>tx_id = i, tx_payload = JNull\<rparr>"

definition always_valid :: "ajv \<Rightarrow> schemaKeyRef \<Rightarrow> blockData \<Rightarrow> checkOutcome" where
  "always_valid a r d = Returns None d"

definition throws_when_verbose ::
  "errorObject list \<Rightarrow> ajv \<Rightarrow> schemaKeyRef \<Rightarrow> blockData \<Rightarrow> checkOutcome" where
  "throws_when_verbose es a r d =
     (if map_of (opts a) ''verbose'' = Some (JBool True)
      then Throws (Some ''Error: no schema with key or ref'') d
      else Returns (Some es) d)"

definition outcome_of :: "(validator \<times> blockData \<times> 'a) option \<Rightarrow> 'a option" where
  "outcome_of run = map_option (snd \<circ> snd) run"

definition calls_of :: "(validator \<times> blockData \<times> 'a) option \<Rightarrow> call list option" where
  "calls_of run = map_option (history \<circ> fst) run"

definition example_registry :: "externals \<Rightarrow> validator" where
  "example_registry ext =
     fst (extendTransaction ext (example_validator ext) (example_schema ''vote'') False)"

definition throws_always :: "ajv \<Rightarrow> schemaKeyRef \<Rightarrow> blockData \<Rightarrow> checkOutcome" where
  "throws_always a r d = Throws (Some ''Error: no schema with key or ref'') d"

text \<open>
  A validator whose registry holds the ids \<^verbatim>\<open>a\<close> and \<^verbatim>\<open>aSigned\<close>, the entries of that
  registry after the tolerant pass has visited \<^verbatim>\<open>aSigned\<close> \<open>n\<close> more times, and the tolerant
  engine after the first visit of \<^verbatim>\<open>a\<close> and after each visit of \<^verbatim>\<open>aSigned\<close>.
\<close>

definition looping_validator :: validator where
  "looping_validator =
     fst (extendTransaction (example_externals always_valid)
            (fst (extendTransaction (example_externals always_valid)
                    (make (example_externals always_valid) [])
                    (example_schema ''a'') False))
            (example_schema ''aSigned'') False)"

definition revisited :: "nat \<Rightarrow> schema jsmap" where
  "revisited n =
     Some (''a'', example_schema ''a'') # replicate n None
       @ [Some (''aSigned'', example_schema ''aSigned'')]"

definition revisited_engine :: ajv where
  "revisited_engine =
     \<lparr>opts = [(''$data'', JBool True), (''removeAdditional'', JBool True),
              (''extendRefs'', JBool True), (''allErrors'', JBool True),
              (''verbose'', JBool True)],
      ajv_schemas =
        [(''a'', example_schema ''a''),
         (''aStrict'', example_schema ''aStrict''),
         (''aSigned'', example_schema ''aSigned''),
         (''aSignedSigned'', example_schema ''aSignedSigned''),
         (''aSignedStrict'', example_schema ''aSignedStrict''),
         (''transactions'', transactions_schema [''a'', ''aSigned'']),
         (''block'', \<lparr>dollar_id = ''block'', members = []\<rparr>)],
      ajv_keywords = [''instanceof'', ''bignumber''], ajv_formats = [''vendorField''],
      ajv_errors = None\<rparr>"

definition first_engine :: ajv where
  "first_engine =
     \<lparr>opts = [(''$data'', JBool True), (''removeAdditional'', JBool True),
              (''extendRefs'', JBool True), (''allErrors'', JBool True),
              (''verbose'', JBool True)],
      ajv_schemas =
        [(''a'', example_schema ''a''),
         (''aSigned'', example_schema ''aSigned''),
         (''aStrict'', example_schema ''aStrict''),
         (''transactions'', transactions_schema [''a'', ''aSigned'']),
         (''block'', \<lparr>dollar_id = ''block'', members = []\<rparr>)],
      ajv_keywords = [''instanceof'', ''bignumber''], ajv_formats = [''vendorField''],
      ajv_errors = None\<rparr>"

text \<open>
  A check that throws a value without \<^verbatim>\<open>stack\<close> (as the engine's error for a reference
  that cannot be resolved), and the registry of two ids after the three schemas of
  \<^verbatim>\<open>transfer\<close> were removed from the default engine through \<^verbatim>\<open>removeSchema\<close> of the validator.
\<close>

definition throws_without_stack :: "ajv \<Rightarrow> schemaKeyRef \<Rightarrow> blockData \<Rightarrow> checkOutcome" where
  "throws_without_stack a r d = Throws None d"

definition unsynced_registry :: "externals \<Rightarrow> validator" where
  "unsynced_registry ext =
     removeSchema (removeSchema (removeSchema (example_registry ext) ''transfer'')
       ''transferSigned'') ''transferStrict''"

section \<open>Facts about the registry and the engine\<close>

lemma map_keys_Nil: "map_keys [] = []"
  by (simp add: map_keys_def)

lemma map_keys_Cons:
  "map_keys (e # m) = (case e of None \<Rightarrow> map_keys m | Some kv \<Rightarrow> fst kv # map_keys m)"
  by (simp add: map_keys_def split: option.splits)

lemma map_keys_append: "map_keys (m @ n) = map_keys m @ map_keys n"
  by (simp add: map_keys_def map_filter_def)

lemma map_keys_map_delete: "map_keys (map_delete k m) = filter (\<lambda>x. x \<noteq> k) (map_keys m)"
  by (induction m) (auto simp: map_delete_def map_keys_Nil map_keys_Cons split: option.splits)

lemma map_keys_in_place:
  "map_keys (map (\<lambda>e. case e of None \<Rightarrow> None
                     | Some kv \<Rightarrow> if fst kv = k then Some (k, v) else Some kv) m) = map_keys m"
  by (induction m) (auto simp: map_keys_Nil map_keys_Cons split: option.splits)

lemma map_keys_map_set:
  "map_keys (map_set k v m) = (if k \<in> set (map_keys m) then map_keys m else map_keys m @ [k])"
  by (simp add: map_set_def map_keys_in_place map_keys_append map_keys_Cons map_keys_Nil)

lemma in_place_member:
  "k \<in> set (map_keys m) \<Longrightarrow>
   Some (k, v) \<in> set (map (\<lambda>e. case e of None \<Rightarrow> None
                     | Some kv \<Rightarrow> if fst kv = k then Some (k, v) else Some kv) m)"
  by (induction m) (auto simp: map_keys_Nil map_keys_Cons split: option.splits)

lemma map_set_member: "Some (k, v) \<in> set (map_set k v m)"
  using in_place_member [of k m v] by (simp add: map_set_def)

lemma normalizeId_rev:
  "normalizeId i =
     (case rev i of
        c1 # c2 # r \<Rightarrow>
          (if c1 = CHR ''/'' \<and> c2 = CHR ''#'' then rev r
           else if c1 = CHR ''#'' then rev (c2 # r)
           else i)
      | [c1] \<Rightarrow> (if c1 = CHR ''#'' then [] else i)
      | [] \<Rightarrow> [])"
  by (simp only: normalizeId_def)

lemma length_normalizeId: "length (normalizeId i) \<le> length i"
proof (cases "rev i")
  case Nil
  then show ?thesis by (simp add: normalizeId_def)
next
  case (Cons c1 r1)
  note c = Cons
  have l: "length i = Suc (length r1)"
    using arg_cong [OF c, of length] by simp
  show ?thesis
  proof (cases r1)
    case Nil
    with c l show ?thesis by (simp add: normalizeId_def del: rev_is_Nil_conv)
  next
    case (Cons c2 r)
    with c l show ?thesis by (simp add: normalizeId_def)
  qed
qed

lemma normalizeId_block: "normalizeId ''block'' = ''block''"
  by (simp add: normalizeId_def)

lemma normalizeId_transactions: "normalizeId ''transactions'' = ''transactions''"
  by (simp add: normalizeId_def)

lemma normalizeId_Signed: "normalizeId (i @ ''Signed'') = i @ ''Signed''"
  by (simp add: normalizeId_def)

lemma normalizeId_Strict: "normalizeId (i @ ''Strict'') = i @ ''Strict''"
  by (simp add: normalizeId_def)

lemma Signed_not_block: "i @ ''Signed'' \<noteq> ''block''"
proof
  assume "i @ ''Signed'' = ''block''"
  then have "rev (i @ ''Signed'') = rev ''block''" by (rule arg_cong)
  then show False by simp
qed

lemma Signed_not_transactions: "i @ ''Signed'' \<noteq> ''transactions''"
proof
  assume "i @ ''Signed'' = ''transactions''"
  then have "rev (i @ ''Signed'') = rev ''transactions''" by (rule arg_cong)
  then show False by simp
qed

lemma Strict_not_block: "i @ ''Strict'' \<noteq> ''block''"
proof
  assume "i @ ''Strict'' = ''block''"
  then have "rev (i @ ''Strict'') = rev ''block''" by (rule arg_cong)
  then show False by simp
qed

lemma Strict_not_transactions: "i @ ''Strict'' \<noteq> ''transactions''"
proof
  assume "i @ ''Strict'' = ''transactions''"
  then have "rev (i @ ''Strict'') = rev ''transactions''" by (rule arg_cong)
  then show False by simp
qed

lemma Signed_not_Strict: "i @ ''Signed'' \<noteq> j @ ''Strict''"
proof
  assume "i @ ''Signed'' = j @ ''Strict''"
  then have "rev (i @ ''Signed'') = rev (j @ ''Strict'')" by (rule arg_cong)
  then show False by simp
qed

lemma lookup_remove:
  "ajv_lookup (ajv_removeSchema a k) k' = (if normalizeId k' = k then None else ajv_lookup a k')"
proof -
  have "map_of (filter (\<lambda>e. fst e \<noteq> k) xs) x = (if x = k then None else map_of xs x)"
    for xs :: "(string \<times> schema) list" and x
    by (induction xs) auto
  then show ?thesis by (simp add: ajv_lookup_def ajv_removeSchema_def)
qed

lemma lookup_add:
  assumes "ajv_addSchema ext a s = Inr a'"
  shows "ajv_lookup a (dollar_id s) = None"
    and "ajv_lookup a' k =
           (if normalizeId k = normalizeId (dollar_id s) then Some s else ajv_lookup a k)"
  using assms
  by (auto simp: ajv_addSchema_def ajv_lookup_def map_add_def
      split: if_splits option.splits)



lemma update_completed:
  assumes "updateTransactionArray ext reg a = (a', None)"
  obtains b3 where
    "ajv_addSchema ext (ajv_removeSchema (ajv_removeSchema a ''block'') ''transactions'')
       (transactions_schema (map_keys reg)) = Inr b3"
    and "ajv_addSchema ext b3 (schemas_block ext) = Inr a'"
  using assms
  by (auto simp: updateTransactionArray_def Let_def split: sum.splits)

lemma update_lookup:
  assumes "updateTransactionArray ext reg a = (a', None)"
  shows "ajv_lookup a' k =
           (if normalizeId k = ''block'' then Some (schemas_block ext)
            else if normalizeId k = ''transactions'' then Some (transactions_schema (map_keys reg))
            else ajv_lookup a k)"
proof -
  from assms obtain b3 where
    b3: "ajv_addSchema ext (ajv_removeSchema (ajv_removeSchema a ''block'') ''transactions'')
           (transactions_schema (map_keys reg)) = Inr b3"
    and b4: "ajv_addSchema ext b3 (schemas_block ext) = Inr a'"
    by (rule update_completed)
  have i: "dollar_id (transactions_schema (map_keys reg)) = ''transactions''"
    "dollar_id (schemas_block ext) = ''block''"
    by (simp_all add: transactions_schema_def schemas_block_def)
  show ?thesis
    unfolding lookup_add(2) [OF b4] lookup_add(2) [OF b3] i lookup_remove
      normalizeId_block normalizeId_transactions
    by simp
qed


lemma extend_completed:
  assumes "extendTransactionSchema ext reg a s remove0 = ((reg', a'), None)"
  obtains a2 a3 a4 where
    "reg' = map_set (dollar_id s) s
              (if ajv_lookup a (dollar_id s) \<noteq> None \<or> remove0
               then map_delete (dollar_id s) reg else reg)"
    and "ajv_addSchema ext
           (if ajv_lookup a (dollar_id s) \<noteq> None \<or> remove0
            then ajv_removeSchema (ajv_removeSchema (ajv_removeSchema a (dollar_id s))
                   (dollar_id s @ ''Signed'')) (dollar_id s @ ''Strict'')
            else a) s = Inr a2"
    and "ajv_addSchema ext a2 (signedSchema ext s) = Inr a3"
    and "ajv_addSchema ext a3 (strictSchema ext s) = Inr a4"
    and "updateTransactionArray ext reg' a4 = (a', None)"
  using assms
  by (auto simp: extendTransactionSchema_def ajv_getSchema_def Let_def
      split: sum.splits prod.splits if_splits option.splits)


lemma normalizeId_shorter:
  "normalizeId i \<noteq> i @ ''Signed''" "normalizeId i \<noteq> i @ ''Strict''"
proof -
  have "length (normalizeId i) < length (i @ ''Signed'')"
    "length (normalizeId i) < length (i @ ''Strict'')"
    using length_normalizeId [of i] by simp_all
  then show "normalizeId i \<noteq> i @ ''Signed''" "normalizeId i \<noteq> i @ ''Strict''"
    by auto
qed

lemma extend_keys:
  assumes "extendTransactionSchema ext reg a s remove0 = ((reg', a'), None)"
  shows "map_keys reg' =
           (if ajv_lookup a (dollar_id s) \<noteq> None \<or> remove0
            then filter (\<lambda>k. k \<noteq> dollar_id s) (map_keys reg) @ [dollar_id s]
            else if dollar_id s \<in> set (map_keys reg) then map_keys reg
            else map_keys reg @ [dollar_id s])"
proof -
  from assms obtain a2 a3 a4 where
    "reg' = map_set (dollar_id s) s
              (if ajv_lookup a (dollar_id s) \<noteq> None \<or> remove0
               then map_delete (dollar_id s) reg else reg)"
    by (rule extend_completed)
  then show ?thesis
    by (simp add: map_keys_map_set map_keys_map_delete)
qed

lemma extend_composite:
  assumes "extendTransactionSchema ext reg a s remove0 = ((reg', a'), None)"
  shows "ajv_lookup a' ''transactions'' = Some (transactions_schema (map_keys reg'))"
proof -
  from assms obtain a4 where "updateTransactionArray ext reg' a4 = (a', None)"
    by (rule extend_completed)
  from update_lookup [OF this, of "''transactions''"] show ?thesis
    by (simp add: normalizeId_transactions)
qed

lemma extend_variants:
  assumes "extendTransactionSchema ext reg a s remove0 = ((reg', a'), None)"
  shows "ajv_lookup a' (dollar_id s @ ''Signed'') = Some (signedSchema ext s)"
    and "ajv_lookup a' (dollar_id s @ ''Strict'') = Some (strictSchema ext s)"
    and "normalizeId (dollar_id s) \<noteq> ''block'' \<Longrightarrow>
         normalizeId (dollar_id s) \<noteq> ''transactions'' \<Longrightarrow>
         ajv_lookup a' (dollar_id s) = Some s"
    and "ajv_lookup a' (dollar_id s) \<noteq> None"
proof -
  from assms obtain a2 a3 a4 where
    a2: "ajv_addSchema ext
           (if ajv_lookup a (dollar_id s) \<noteq> None \<or> remove0
            then ajv_removeSchema (ajv_removeSchema (ajv_removeSchema a (dollar_id s))
                   (dollar_id s @ ''Signed'')) (dollar_id s @ ''Strict'')
            else a) s = Inr a2"
    and a3: "ajv_addSchema ext a2 (signedSchema ext s) = Inr a3"
    and a4: "ajv_addSchema ext a3 (strictSchema ext s) = Inr a4"
    and up: "updateTransactionArray ext reg' a4 = (a', None)"
    by (rule extend_completed)
  have i: "dollar_id (signedSchema ext s) = dollar_id s @ ''Signed''"
    "dollar_id (strictSchema ext s) = dollar_id s @ ''Strict''"
    by (simp_all add: signedSchema_def strictSchema_def)
  note f2 = lookup_add [OF a2] and f3 = lookup_add [OF a3] and f4 = lookup_add [OF a4]
  have s2: "ajv_lookup a2 (dollar_id s) = Some s" using f2(2) by simp
  have n3: "normalizeId (dollar_id s) \<noteq> dollar_id s @ ''Signed''"
    by (rule normalizeId_shorter)
  have s3: "ajv_lookup a3 (dollar_id s) = Some s"
    using f3(2) [of "dollar_id s"] s2 n3 unfolding i by (simp add: normalizeId_Signed)
  have g3: "ajv_lookup a3 (dollar_id s @ ''Signed'') = Some (signedSchema ext s)"
    using f3(2) [of "dollar_id s @ ''Signed''"] unfolding i by simp
  have n4: "normalizeId (dollar_id s) \<noteq> dollar_id s @ ''Strict''"
    by (rule normalizeId_shorter)
  have s4: "ajv_lookup a4 (dollar_id s) = Some s"
    using f4(2) [of "dollar_id s"] s3 n4 unfolding i by (simp add: normalizeId_Strict)
  have g4: "ajv_lookup a4 (dollar_id s @ ''Signed'') = Some (signedSchema ext s)"
    using f4(2) [of "dollar_id s @ ''Signed''"] g3 unfolding i
    by (simp add: normalizeId_Signed normalizeId_Strict Signed_not_Strict)
  have t4: "ajv_lookup a4 (dollar_id s @ ''Strict'') = Some (strictSchema ext s)"
    using f4(2) [of "dollar_id s @ ''Strict''"] unfolding i by simp
  note u = update_lookup [OF up]
  show "ajv_lookup a' (dollar_id s @ ''Signed'') = Some (signedSchema ext s)"
    unfolding u using g4
    by (simp add: normalizeId_Signed Signed_not_block Signed_not_transactions)
  show "ajv_lookup a' (dollar_id s @ ''Strict'') = Some (strictSchema ext s)"
    unfolding u using t4
    by (simp add: normalizeId_Strict Strict_not_block Strict_not_transactions)
  show "normalizeId (dollar_id s) \<noteq> ''block'' \<Longrightarrow>
         normalizeId (dollar_id s) \<noteq> ''transactions'' \<Longrightarrow>
         ajv_lookup a' (dollar_id s) = Some s"
    unfolding u using s4 by simp
  show "ajv_lookup a' (dollar_id s) \<noteq> None"
    unfolding u using s4 by simp
qed



lemma map_set_cases:
  "map_set k v m = (if k \<in> set (map_keys m) then in_place k v m else m @ [Some (k, v)])"
  by (simp add: map_set_def)









lemma count_branches:
  "count_list (map (\<lambda>k. JObj [(''$ref'', JStr (k @ ''Signed''))]) ks)
     (JObj [(''$ref'', JStr (i @ ''Signed''))]) = count_list ks i"
  by (induction ks) auto

lemma count_moved_to_end: "count_list (filter (\<lambda>k. k \<noteq> i) ks @ [i]) i = 1"
proof -
  have "count_list (filter (\<lambda>k. k \<noteq> i) ks) i = 0"
    by (induction ks) auto
  then show ?thesis by simp
qed

section \<open>Facts about the tolerant pass\<close>



lemma registry_wf_map_delete:
  assumes "registry_wf m"
  shows "registry_wf (map_delete k m)"
proof -
  from assms have "distinct (map_keys (map_delete k m))"
    by (simp add: registry_wf_def map_keys_map_delete)
  moreover from assms have
    "list_all (\<lambda>e. case e of None \<Rightarrow> True | Some kv \<Rightarrow> fst kv = dollar_id (snd kv))
       (map_delete k m)"
    by (auto simp: registry_wf_def list_all_iff map_delete_def split: option.splits)
  ultimately show ?thesis by (simp add: registry_wf_def)
qed

lemma registry_wf_map_set:
  assumes "registry_wf m"
  shows "registry_wf (map_set (dollar_id s) s m)"
proof (cases "dollar_id s \<in> set (map_keys m)")
  case True
  from assms have "distinct (map_keys (in_place (dollar_id s) s m))"
    by (simp add: registry_wf_def map_keys_in_place)
  moreover from assms have
    "list_all (\<lambda>e. case e of None \<Rightarrow> True | Some kv \<Rightarrow> fst kv = dollar_id (snd kv))
       (in_place (dollar_id s) s m)"
    by (auto simp: registry_wf_def list_all_iff split: option.splits)
  ultimately show ?thesis using True by (simp add: registry_wf_def map_set_cases)
next
  case False
  with assms show ?thesis
    by (simp add: registry_wf_def map_set_cases map_keys_append map_keys_Cons map_keys_Nil)
qed

lemma extend_registry_shape:
  "fst (fst (extendTransactionSchema ext reg a s remove0)) = reg
   \<or> fst (fst (extendTransactionSchema ext reg a s remove0)) =
       map_set (dollar_id s) s
         (if ajv_lookup a (dollar_id s) \<noteq> None \<or> remove0
          then map_delete (dollar_id s) reg else reg)"
  by (auto simp: extendTransactionSchema_def ajv_getSchema_def Let_def
      split: sum.splits prod.splits option.splits)

lemma registry_wf_extend:
  assumes "registry_wf reg"
  shows "registry_wf (fst (fst (extendTransactionSchema ext reg a s remove0)))"
  using assms extend_registry_shape [of ext reg a s remove0]
  by (auto simp: registry_wf_map_set registry_wf_map_delete)

lemma registry_wf_make: "registry_wf (transactionSchemas (make ext options))"
  by (simp add: make_def registry_wf_def map_keys_Nil)

lemma registry_wf_extendTransaction:
  "registry_wf (transactionSchemas v) \<Longrightarrow>
   registry_wf (transactionSchemas (fst (extendTransaction ext v s remove0)))"
  using registry_wf_extend [of "transactionSchemas v" ext "ajv v" s remove0]
  by (auto simp: extendTransaction_def split: prod.splits)





section \<open>Facts about the top-level policy\<close>

lemma applySchema_second_pass:
  assumes "validate ext v (KeyRef ''block'') d = (v1, d1, r1)"
    and "res_error r1 = Some txt" and "txt \<noteq> []"
    and "validateException ext v1 (KeyRef ''block'') d1 = Some (v2, d2, Inr r2)"
    and "res_errors r2 = Some errs"
  shows "applySchema ext v d =
           (case applySchema_loop ext v2 d2 errs of
              (v3, Some e) \<Rightarrow> Some (v3, d2, Inl e)
            | (v3, None) \<Rightarrow> Some (v3, d2, Inr (res_value r2)))"
  using assms by (simp add: applySchema_def)

lemma applySchema_loop_append:
  "applySchema_loop ext v d pre = (v', None) \<Longrightarrow>
   applySchema_loop ext v d (pre @ rest) = applySchema_loop ext v' d rest"
proof (induction pre arbitrary: v)
  case Nil
  then show ?case by simp
next
  case (Cons err pre)
  obtain u r where f: "is_fatal ext v d err = (u, r)" by (cases "is_fatal ext v d err")
  show ?case
  proof (cases r)
    case (Inl e)
    with f Cons.prems show ?thesis by simp
  next
    case (Inr fatal)
    with f Cons.prems have nf: "\<not> fatal" and rest: "applySchema_loop ext u d pre = (v', None)"
      by (auto split: if_splits)
    from Cons.IH [OF rest] f Inr nf show ?thesis by simp
  qed
qed

lemma is_fatal_error: "is_fatal ext v d err = (v', Inl e) \<Longrightarrow> e = TypeError"
  by (auto simp: is_fatal_def split: option.splits)

lemma applySchema_loop_rejects:
  assumes "err \<in> set errs"
    and "match_transactions (dataPath err) = None"
    and "\<not> isException ext (block_id d)"
  shows "\<exists>v' e. applySchema_loop ext v d errs = (v', Some e)
           \<and> (e = TypeError \<or> (\<exists>what. e = BlockSchemaError (height d) what))"
  using assms(1)
proof (induction errs arbitrary: v)
  case Nil
  then show ?case by simp
next
  case (Cons x xs)
  obtain u r where f: "is_fatal ext v d x = (u, r)" by (cases "is_fatal ext v d x")
  show ?case
  proof (cases r)
    case (Inl e)
    with f is_fatal_error [of ext v d x u e] show ?thesis by simp
  next
    case (Inr fatal)
    show ?thesis
    proof (cases fatal)
      case True
      with f Inr show ?thesis by simp
    next
      case False
      have "x \<noteq> err"
      proof
        assume "x = err"
        with assms(2,3) have "snd (is_fatal ext v d x) = Inr True"
          by (simp add: is_fatal_def)
        with f Inr False show False by simp
      qed
      with Cons.prems have "err \<in> set xs" by auto
      from Cons.IH [OF this, of u] f Inr False show ?thesis by simp
    qed
  qed
qed

lemma validate_result_cases:
  "(engine_check ext (ajv v) schemaKeyRef d = Throws stack d' \<longrightarrow>
      snd (snd (validate ext v schemaKeyRef d)) =
        \<lparr>res_value = None, res_error = stack, res_errors = Some []\<rparr>)
   \<and> (engine_check ext (ajv v) schemaKeyRef d = Returns None d' \<longrightarrow>
      snd (snd (validate ext v schemaKeyRef d)) =
        \<lparr>res_value = Some d', res_error = None, res_errors = None\<rparr>)"
  by (simp add: validate_def validateSchema_def Let_def)

section \<open>A registry on which the tolerant pass does not return\<close>

text \<open>
  In a new engine the signed variant of \<^verbatim>\<open>a\<close> is registered under \<^verbatim>\<open>aSigned\<close> when the
  loop of \<^verbatim>\<open>validateException\<close> comes to the registered schema of that id. The body then
  deletes the entry from the registry and sets it again, which appends it; the live
  iterator meets the appended entry, the id is registered again, and so on.
\<close>

lemma map_keys_replicate_None: "map_keys (replicate n None) = []"
  by (induction n) (simp_all add: map_keys_def)

lemma map_keys_revisited: "map_keys (revisited n) = [''a'', ''aSigned'']"
  by (simp add: revisited_def map_keys_Cons map_keys_append map_keys_replicate_None map_keys_Nil)

lemma map_delete_revisited:
  "map_delete ''aSigned'' (revisited n) =
     Some (''a'', example_schema ''a'') # replicate (Suc n) None"
  by (simp add: revisited_def map_delete_def replicate_append_same)

lemma map_set_revisited:
  "map_set ''aSigned'' s (Some (''a'', example_schema ''a'') # replicate (Suc n) None) =
     Some (''a'', example_schema ''a'') # replicate (Suc n) None @ [Some (''aSigned'', s)]"
proof -
  have "map_keys (Some (''a'', example_schema ''a'') # replicate (Suc n) None) = [''a'']"
    using map_keys_replicate_None [of "Suc n"] by (simp add: map_keys_Cons)
  then show ?thesis
    unfolding map_set_def by simp
qed

lemma revisited_entry: "Suc n < length (revisited n) \<and>
   revisited n ! Suc n = Some (''aSigned'', example_schema ''aSigned'')"
  by (simp add: revisited_def nth_append)

lemma revisited_step:
  "extendTransactionSchema (example_externals check) (revisited n) revisited_engine
     (example_schema ''aSigned'') False = ((revisited (Suc n), revisited_engine), None)"
proof -
  have i: "dollar_id (example_schema ''aSigned'') = ''aSigned''"
    by (simp add: example_schema_def)
  have g: "ajv_getSchema (example_externals check) revisited_engine ''aSigned''
             = Inr (Some (example_schema ''aSigned''))"
    by (simp add: ajv_getSchema_def ajv_lookup_def normalizeId_def revisited_engine_def
          example_externals_def)
  have r: "map_set ''aSigned'' (example_schema ''aSigned'')
             (map_delete ''aSigned'' (revisited n)) = revisited (Suc n)"
    unfolding map_delete_revisited map_set_revisited by (simp add: revisited_def)
  show ?thesis
    unfolding extendTransactionSchema_def Let_def i g
    using r
    by (simp add: updateTransactionArray_def ajv_addSchema_def ajv_removeSchema_def
          ajv_lookup_def normalizeId_def signedSchema_def strictSchema_def schemas_block_def
          revisited_engine_def example_schema_def example_externals_def
          transactions_schema_def map_keys_revisited)
qed

lemma revisited_never_returns:
  assumes "validateException_loop e i reg a = Some y"
  shows "\<not> (e = example_externals check \<and> a = revisited_engine
            \<and> (\<exists>n. i = Suc n \<and> reg = revisited n))"
proof (rule validateException_loop.raw_induct
    [where P = "\<lambda>e i reg a y. \<not> (e = example_externals check \<and> a = revisited_engine
            \<and> (\<exists>n. i = Suc n \<and> reg = revisited n))", OF _ assms])
  fix loop e i reg a and y :: "(schema jsmap \<times> ajv) \<times> error option"
  assume IH: "\<And>e i reg a y. loop e i reg a = Some y \<Longrightarrow>
                \<not> (e = example_externals check \<and> a = revisited_engine
                     \<and> (\<exists>n. i = Suc n \<and> reg = revisited n))"
    and body: "(if i < length reg
      then (case reg ! i of
              None \<Rightarrow> loop e (Suc i) reg a
            | Some kv \<Rightarrow>
                (case extendTransactionSchema e reg a (snd kv) False of
                   ((reg', a'), Some e) \<Rightarrow> Some ((reg', a'), Some e)
                 | ((reg', a'), None) \<Rightarrow> loop e (Suc i) reg' a'))
      else Some ((reg, a), None)) = Some y"
  show "\<not> (e = example_externals check \<and> a = revisited_engine
            \<and> (\<exists>n. i = Suc n \<and> reg = revisited n))"
  proof
    assume "e = example_externals check \<and> a = revisited_engine
            \<and> (\<exists>n. i = Suc n \<and> reg = revisited n)"
    then obtain n where e: "e = example_externals check" and a: "a = revisited_engine"
      and i: "i = Suc n" and reg: "reg = revisited n" by blast
    from body have "loop e (Suc (Suc n)) (revisited (Suc n)) revisited_engine = Some y"
      unfolding e a i reg using revisited_entry [of n] by (simp add: revisited_step)
    from IH [OF this] e show False by blast
  qed
qed

lemma looping_registry: "transactionSchemas looping_validator = revisited 0"
  unfolding revisited_def by code_simp

lemma first_visits:
  "validateException_loop (example_externals check) 0 (revisited 0)
     (instantiateAjv (example_externals check)
        [(''allErrors'', JBool True), (''verbose'', JBool True)])
   = validateException_loop (example_externals check) (Suc (Suc 0)) (revisited (Suc 0))
       revisited_engine"
proof -
  let ?ext = "example_externals check"
  let ?fresh = "instantiateAjv ?ext [(''allErrors'', JBool True), (''verbose'', JBool True)]"
  have s0: "extendTransactionSchema ?ext (revisited 0) ?fresh (example_schema ''a'') False
              = ((revisited 0, first_engine), None)"
    by (simp add: extendTransactionSchema_def updateTransactionArray_def ajv_addSchema_def
          ajv_removeSchema_def ajv_getSchema_def ajv_lookup_def normalizeId_def
          signedSchema_def strictSchema_def schemas_block_def ajvKeywords_def
          ajv_addKeyword_def ajv_addFormat_def instantiateAjv_def schemas_def spread_def
          example_schema_def example_externals_def transactions_schema_def revisited_def
          first_engine_def map_set_def map_keys_def)
  have s1: "extendTransactionSchema ?ext (revisited 0) first_engine
              (example_schema ''aSigned'') False
              = ((revisited (Suc 0), revisited_engine), None)"
    by (simp add: extendTransactionSchema_def updateTransactionArray_def ajv_addSchema_def
          ajv_removeSchema_def ajv_getSchema_def ajv_lookup_def normalizeId_def
          signedSchema_def strictSchema_def schemas_block_def
          example_schema_def example_externals_def transactions_schema_def revisited_def
          first_engine_def revisited_engine_def map_set_def map_keys_def map_delete_def)
  have len: "length (revisited 0) = Suc (Suc 0)"
    by (simp add: revisited_def)
  have e0: "revisited 0 ! 0 = Some (''a'', example_schema ''a'')"
    by (simp add: revisited_def)
  have e1: "revisited 0 ! Suc 0 = Some (''aSigned'', example_schema ''aSigned'')"
    using revisited_entry [of 0] by simp
  have "validateException_loop ?ext 0 (revisited 0) ?fresh
          = validateException_loop ?ext (Suc 0) (revisited 0) first_engine"
    by (subst validateException_loop.simps) (simp add: len e0 s0)
  also have "\<dots> = validateException_loop ?ext (Suc (Suc 0)) (revisited (Suc 0)) revisited_engine"
    by (subst validateException_loop.simps) (simp add: len e1 s1)
  finally show ?thesis .
qed

lemma validateException_never_returns:
  assumes "transactionSchemas v = revisited 0"
  shows "validateException (example_externals check) v schemaKeyRef d = None"
proof -
  have "validateException_loop (example_externals check) (Suc (Suc 0)) (revisited (Suc 0))
          revisited_engine = None"
  proof (cases "validateException_loop (example_externals check) (Suc (Suc 0))
          (revisited (Suc 0)) revisited_engine")
    case None
    then show ?thesis .
  next
    case (Some y)
    from revisited_never_returns [OF this, of check] show ?thesis by blast
  qed
  with first_visits [of check] assms show ?thesis
    by (simp add: validateException_def)
qed

lemma applySchema_never_returns:
  "applySchema (example_externals (always_errors es)) looping_validator d = None"
proof -
  let ?ext = "example_externals (always_errors es)"
  obtain v1 d1 r1 where p: "validate ?ext looping_validator (KeyRef ''block'') d = (v1, d1, r1)"
    by (cases "validate ?ext looping_validator (KeyRef ''block'') d") auto
  then have r: "res_error r1 = Some ''data is invalid''"
    and t: "transactionSchemas v1 = revisited 0"
    by (auto simp: validate_def validateSchema_def always_errors_def example_externals_def
          looping_registry)
  from p r validateException_never_returns [OF t, of "always_errors es" "KeyRef ''block''" d1]
  show ?thesis
    by (simp add: applySchema_def)
qed

section \<open>Facts about the path pattern\<close>

lemma match_at_Some_iff:
  "match_at s = Some ds \<longleftrightarrow>
     ds \<noteq> [] \<and> (\<forall>c \<in> set ds. is_digit c) \<and> (\<exists>q. s = ''.transactions['' @ ds @ '']'' @ q)"
proof
  assume m: "match_at s = Some ds"
  let ?r = "drop 14 s"
  from m have p: "take 14 s = ''.transactions[''"
    and d: "takeWhile is_digit ?r = ds" and ne: "ds \<noteq> []"
    and t: "take 1 (dropWhile is_digit ?r) = '']''"
    by (auto simp: match_at_def Let_def split: if_splits)
  from t obtain q where q: "dropWhile is_digit ?r = CHR '']'' # q"
    by (cases "dropWhile is_digit ?r") auto
  have "?r = ds @ CHR '']'' # q"
    using takeWhile_dropWhile_id [of is_digit ?r] d q by simp
  with p have "s = ''.transactions['' @ ds @ '']'' @ q"
    using append_take_drop_id [of 14 s] by simp
  moreover have "\<forall>c \<in> set ds. is_digit c"
    using d set_takeWhileD by fastforce
  ultimately show "ds \<noteq> [] \<and> (\<forall>c \<in> set ds. is_digit c) \<and> (\<exists>q. s = ''.transactions['' @ ds @ '']'' @ q)"
    using ne by blast
next
  assume a: "ds \<noteq> [] \<and> (\<forall>c \<in> set ds. is_digit c) \<and> (\<exists>q. s = ''.transactions['' @ ds @ '']'' @ q)"
  then obtain q where s: "s = ''.transactions['' @ ds @ '']'' @ q" by blast
  have nd: "\<not> is_digit CHR '']''" by (simp add: is_digit_def)
  from a have dig: "\<And>c. c \<in> set ds \<Longrightarrow> is_digit c" by blast
  have tw: "takeWhile is_digit (ds @ CHR '']'' # q) = ds"
    using dig nd by (simp add: takeWhile_append2)
  have dw: "dropWhile is_digit (ds @ CHR '']'' # q) = CHR '']'' # q"
    using dig nd by (simp add: dropWhile_append2)
  from a s tw dw show "match_at s = Some ds"
    by (simp add: match_at_def)
qed

lemma match_transactions_None_iff:
  "match_transactions s = None \<longleftrightarrow> (\<forall>p t. s = p @ t \<longrightarrow> match_at t = None)"
proof (induction s)
  case Nil
  then show ?case by (simp add: match_at_def)
next
  case (Cons c cs)
  have "(\<forall>p t. c # cs = p @ t \<longrightarrow> match_at t = None) \<longleftrightarrow>
          match_at (c # cs) = None \<and> (\<forall>p t. cs = p @ t \<longrightarrow> match_at t = None)"
    by (auto simp: Cons_eq_append_conv)
  with Cons.IH show ?case
    by (auto split: option.splits)
qed

lemma match_transactions_segment:
  "match_transactions path = None \<longleftrightarrow> \<not> has_transactions_segment path"
proof -
  have "has_transactions_segment path \<longleftrightarrow> (\<exists>p t ds. path = p @ t \<and> match_at t = Some ds)"
    unfolding has_transactions_segment_def match_at_Some_iff by auto
  then show ?thesis
    unfolding match_transactions_None_iff by auto
qed

section \<open>The claims\<close>

text \<open>
  C1. When \<^verbatim>\<open>applySchema\<close> reaches an error of the tolerant pass whose path has no
  \<^verbatim>\<open>.transactions[N]\<close> segment (\<open>match_transactions\<close> finds nothing; the errors before it
  were all tolerated) and the identifier of the block is not an exception, it throws
  \<^verbatim>\<open>BlockSchemaError\<close> with the height of the block and the text made of the path (when
  not empty), the message and the serialized value. The oracle is asked once for this
  error and the errors after it are not classified: neither the outcome nor the history
  depends on them.
\<close>

theorem block_scoped_error_is_fatal:
  assumes "validate ext v (KeyRef ''block'') d = (v1, d1, r1)"
    and "res_error r1 = Some txt" and "txt \<noteq> []"
    and "validateException ext v1 (KeyRef ''block'') d1 = Some (v2, d2, Inr r2)"
    and "res_errors r2 = Some (pre @ err # post)"
    and "applySchema_loop ext v2 d2 pre = (v3, None)"
    and "match_transactions (dataPath err) = None"
    and "\<not> isException ext (block_id d2)"
  shows "applySchema ext v d =
           Some (v3\<lparr>history := history v3 @ [IsException (block_id d2)]\<rparr>, d2,
                 Inl (BlockSchemaError (height d2)
                        (''Invalid data''
                           @ (if dataPath err \<noteq> [] then '' at '' @ dataPath err else [])
                           @ '': '' @ message err @ '': '' @ stringify ext (data err))))"
proof -
  have "applySchema_loop ext v2 d2 (pre @ err # post) =
          (v3\<lparr>history := history v3 @ [IsException (block_id d2)]\<rparr>,
           Some (BlockSchemaError (height d2) (failure_text ext err)))"
    using assms(6-8) by (simp add: applySchema_loop_append is_fatal_def)
  with applySchema_second_pass [OF assms(1-5)] show ?thesis
    by (simp add: failure_text_def)
qed

theorem block_scoped_error_is_fatal_witness:
  "map_option (\<lambda>r. (history (fst r), snd (snd r)))
     (applySchema
        (example_externals (always_errors
           [example_error ''.transactions[0].amount'', example_error ''.version'',
            example_error ''.transactions[1]'']))
        (example_validator (example_externals (always_errors [])))
        (example_block (Some ''b1'') (Some [example_tx (Some ''grandfathered'')])))
   = Some ([NewEngine [], EngineValidate (KeyRef ''block''),
            NewEngine [(''allErrors'', JBool True), (''verbose'', JBool True)],
            EngineValidate (KeyRef ''block''),
            IsException (Some ''grandfathered''), IsException (Some ''b1'')],
           Inl (BlockSchemaError 5 ''Invalid data at .version: should be integer: null''))"
proof -
  let ?ext = "example_externals (always_errors
           [example_error ''.transactions[0].amount'', example_error ''.version'',
            example_error ''.transactions[1]''])"
  let ?v = "example_validator (example_externals (always_errors []))"
  let ?d = "example_block (Some ''b1'') (Some [example_tx (Some ''grandfathered'')])"
  let ?p1 = "validate ?ext ?v (KeyRef ''block'') ?d"
  let ?p2 = "the (validateException ?ext (fst ?p1) (KeyRef ''block'') (fst (snd ?p1)))"
  let ?r2 = "projr (snd (snd ?p2))"
  let ?v3 = "fst (applySchema_loop ?ext (fst ?p2) (fst (snd ?p2))
                    [example_error ''.transactions[0].amount''])"
  have h1: "?p1 = (fst ?p1, fst (snd ?p1), snd (snd ?p1))" by simp
  have h2: "res_error (snd (snd ?p1)) = Some ''data is invalid''" by code_simp
  have h3: "''data is invalid'' \<noteq> []" by simp
  have h4: "validateException ?ext (fst ?p1) (KeyRef ''block'') (fst (snd ?p1)) =
              Some (fst ?p2, fst (snd ?p2), Inr ?r2)" by code_simp
  have h5: "res_errors ?r2 = Some ([example_error ''.transactions[0].amount'']
              @ example_error ''.version'' # [example_error ''.transactions[1]''])" by code_simp
  have h6: "applySchema_loop ?ext (fst ?p2) (fst (snd ?p2))
              [example_error ''.transactions[0].amount''] = (?v3, None)" by code_simp
  have h7: "match_transactions (dataPath (example_error ''.version'')) = None" by code_simp
  have h8: "\<not> isException ?ext (block_id (fst (snd ?p2)))" by code_simp
  show ?thesis
    apply (subst block_scoped_error_is_fatal [OF h1 h2 h3 h4 h5 h6 h7 h8])
    apply code_simp
    done
qed

text \<open>
  C2, as amended. When \<^verbatim>\<open>applySchema\<close> reaches an error whose path matches
  \<^verbatim>\<open>.transactions[N]\<close> and the array of transactions of the block holds an element at
  index \<open>N\<close>, the error is fatal unless that transaction has an identifier and the oracle
  exempts it: without identifier the failure is thrown and the oracle is not asked; with
  an identifier the oracle is asked once, and the run throws the failure or goes on with
  the remaining errors.
\<close>

theorem transaction_scoped_error_classification:
  assumes "validate ext v (KeyRef ''block'') d = (v1, d1, r1)"
    and "res_error r1 = Some txt" and "txt \<noteq> []"
    and "validateException ext v1 (KeyRef ''block'') d1 = Some (v2, d2, Inr r2)"
    and "res_errors r2 = Some (pre @ err # post)"
    and "applySchema_loop ext v2 d2 pre = (v3, None)"
    and "match_transactions (dataPath err) = Some txIndex"
    and "transactions d2 = Some txs"
    and "element_at txs txIndex = Some tx"
  shows "applySchema ext v d =
           (case tx_id tx of
              None \<Rightarrow>
                Some (v3, d2, Inl (BlockSchemaError (height d2) (failure_text ext err)))
            | Some i \<Rightarrow>
                (if isException ext (Some i)
                 then (case applySchema_loop ext
                              (v3\<lparr>history := history v3 @ [IsException (Some i)]\<rparr>) d2 post of
                         (v4, Some e) \<Rightarrow> Some (v4, d2, Inl e)
                       | (v4, None) \<Rightarrow> Some (v4, d2, Inr (res_value r2)))
                 else Some (v3\<lparr>history := history v3 @ [IsException (Some i)]\<rparr>, d2,
                            Inl (BlockSchemaError (height d2) (failure_text ext err)))))"
proof -
  have "applySchema_loop ext v2 d2 (pre @ err # post) =
          applySchema_loop ext v3 d2 (err # post)"
    using assms(6) by (rule applySchema_loop_append)
  with applySchema_second_pass [OF assms(1-5)] assms(7-9) show ?thesis
    by (simp add: is_fatal_def split: option.splits)
qed

theorem transaction_scoped_error_classification_witness:
  "outcome_of
     (applySchema
        (example_externals (always_errors [example_error ''.transactions[0].amount'']))
        (example_validator (example_externals always_valid))
        (example_block (Some ''b1'') (Some [example_tx (Some ''grandfathered'')])))
   = Some (Inr (Some (example_block (Some ''b1'') (Some [example_tx (Some ''grandfathered'')]))))"
proof -
  let ?ext = "example_externals (always_errors [example_error ''.transactions[0].amount''])"
  let ?v = "example_validator (example_externals always_valid)"
  let ?d = "example_block (Some ''b1'') (Some [example_tx (Some ''grandfathered'')])"
  let ?p1 = "validate ?ext ?v (KeyRef ''block'') ?d"
  let ?p2 = "the (validateException ?ext (fst ?p1) (KeyRef ''block'') (fst (snd ?p1)))"
  let ?r2 = "projr (snd (snd ?p2))"
  have h1: "?p1 = (fst ?p1, fst (snd ?p1), snd (snd ?p1))" by simp
  have h2: "res_error (snd (snd ?p1)) = Some ''data is invalid''" by code_simp
  have h3: "''data is invalid'' \<noteq> []" by simp
  have h4: "validateException ?ext (fst ?p1) (KeyRef ''block'') (fst (snd ?p1)) =
              Some (fst ?p2, fst (snd ?p2), Inr ?r2)" by code_simp
  have h5: "res_errors ?r2 = Some ([] @ example_error ''.transactions[0].amount'' # [])"
    by code_simp
  have h6: "applySchema_loop ?ext (fst ?p2) (fst (snd ?p2)) [] = (fst ?p2, None)" by simp
  have h7: "match_transactions (dataPath (example_error ''.transactions[0].amount'')) = Some ''0''"
    by code_simp
  have h8: "transactions (fst (snd ?p2)) = Some [example_tx (Some ''grandfathered'')]"
    by code_simp
  have h9: "element_at [example_tx (Some ''grandfathered'')] ''0''
              = Some (example_tx (Some ''grandfathered''))" by code_simp
  show ?thesis
    apply (subst transaction_scoped_error_classification [OF h1 h2 h3 h4 h5 h6 h7 h8 h9])
    apply code_simp
    done
qed

text \<open>
  C2 as first stated fails when the block has no array of transactions (the
  pattern is not anchored, so a path below another member matches as well): the path
  matches, no transaction has an exempted identifier, and yet the error is tolerated and
  \<^verbatim>\<open>applySchema\<close> returns the record, without a call of the oracle.
\<close>

theorem absent_transactions_counterexample:
  "match_transactions (dataPath (example_error ''.payload.transactions[0].amount'')) = Some ''0''
   \<and> transactions (example_block (Some ''b1'') None) = None
   \<and> outcome_of
       (applySchema
          (example_externals (always_errors [example_error ''.payload.transactions[0].amount'']))
          (example_validator (example_externals always_valid))
          (example_block (Some ''b1'') None))
     = Some (Inr (Some (example_block (Some ''b1'') None)))
   \<and> calls_of
       (applySchema
          (example_externals (always_errors [example_error ''.payload.transactions[0].amount'']))
          (example_validator (example_externals always_valid))
          (example_block (Some ''b1'') None))
     = Some [NewEngine [], EngineValidate (KeyRef ''block''),
             NewEngine [(''allErrors'', JBool True), (''verbose'', JBool True)],
             EngineValidate (KeyRef ''block'')]"
  by code_simp

text \<open>
  C3, as amended. \<^verbatim>\<open>extendTransaction(schema, true)\<close> does not leave the id unregistered:
  after the removals it sets the definition into the registry and adds the three variants
  again. After a call that completes, the id is the last key of the registry, after the
  other keys in their order, and maps to the given definition; the engine holds the
  signed and the strict variant under the id with the suffix \<^verbatim>\<open>Signed\<close> and \<^verbatim>\<open>Strict\<close>, and
  the given definition under the id unless the normalized id is \<^verbatim>\<open>block\<close> or
  \<^verbatim>\<open>transactions\<close> (the two keys that the rebuild removes and adds again); and the schema
  held under \<^verbatim>\<open>transactions\<close> is the array schema without additional items whose items
  are any of the \<^verbatim>\<open>$ref\<close> of the other keys of the registry, in their order, followed by
  \<^verbatim>\<open>{$ref: "<id>Signed"}\<close> of the id.
\<close>

theorem remove_flag_replaces:
  assumes "extendTransaction ext v s True = (v', None)"
  shows "map_keys (transactionSchemas v') =
           filter (\<lambda>k. k \<noteq> dollar_id s) (map_keys (transactionSchemas v)) @ [dollar_id s]
         \<and> Some (dollar_id s, s) \<in> set (transactionSchemas v')
         \<and> ajv_lookup (ajv v') (dollar_id s @ ''Signed'') = Some (signedSchema ext s)
         \<and> ajv_lookup (ajv v') (dollar_id s @ ''Strict'') = Some (strictSchema ext s)
         \<and> (normalizeId (dollar_id s) \<noteq> ''block'' \<and> normalizeId (dollar_id s) \<noteq> ''transactions''
              \<longrightarrow> ajv_lookup (ajv v') (dollar_id s) = Some s)
         \<and> ajv_lookup (ajv v') ''transactions'' =
             Some \<lparr>dollar_id = ''transactions'',
                   members =
                     [(''type'', JStr ''array''),
                      (''additionalItems'', JBool False),
                      (''items'', JObj [(''anyOf'',
                         JArr (map (\<lambda>k. JObj [(''$ref'', JStr (k @ ''Signed''))])
                                 (filter (\<lambda>k. k \<noteq> dollar_id s)
                                    (map_keys (transactionSchemas v)))
                               @ [JObj [(''$ref'', JStr (dollar_id s @ ''Signed''))]]))])]\<rparr>"
proof -
  from assms obtain reg' a' where
    e: "extendTransactionSchema ext (transactionSchemas v) (ajv v) s True = ((reg', a'), None)"
    and v': "v' = v\<lparr>ajv := a', transactionSchemas := reg'\<rparr>"
    by (auto simp: extendTransaction_def split: prod.splits)
  have k: "map_keys reg' =
             filter (\<lambda>k. k \<noteq> dollar_id s) (map_keys (transactionSchemas v)) @ [dollar_id s]"
    using extend_keys [OF e] by simp
  from e obtain a2 a3 a4 where
    "reg' = map_set (dollar_id s) s
              (if ajv_lookup (ajv v) (dollar_id s) \<noteq> None \<or> True
               then map_delete (dollar_id s) (transactionSchemas v) else transactionSchemas v)"
    by (rule extend_completed)
  then have m: "Some (dollar_id s, s) \<in> set reg'"
    by (simp add: map_set_member)
  have c: "ajv_lookup a' ''transactions'' =
             Some (transactions_schema
                     (filter (\<lambda>k. k \<noteq> dollar_id s) (map_keys (transactionSchemas v))
                      @ [dollar_id s]))"
    using extend_composite [OF e] k by simp
  from k m c extend_variants(1-3) [OF e] v' show ?thesis
    by (simp add: transactions_schema_def)
qed

theorem remove_flag_replaces_witness:
  "map_keys (transactionSchemas (fst (extendTransaction (example_externals always_valid)
          (example_registry (example_externals always_valid))
          (example_schema ''transfer'') True))) = [''vote'', ''transfer'']
   \<and> ajv_lookup (ajv (fst (extendTransaction (example_externals always_valid)
          (example_registry (example_externals always_valid))
          (example_schema ''transfer'') True))) ''transfer''
       = Some (example_schema ''transfer'')
   \<and> ajv_lookup (ajv (fst (extendTransaction (example_externals always_valid)
          (example_registry (example_externals always_valid))
          (example_schema ''transfer'') True))) ''transactions''
       = Some \<lparr>dollar_id = ''transactions'',
               members = [(''type'', JStr ''array''), (''additionalItems'', JBool False),
                          (''items'', JObj [(''anyOf'',
                             JArr [JObj [(''$ref'', JStr ''voteSigned'')],
                                   JObj [(''$ref'', JStr ''transferSigned'')]])])]\<rparr>"
proof -
  let ?ext = "example_externals always_valid"
  let ?p = "extendTransaction ?ext (example_registry ?ext) (example_schema ''transfer'') True"
  have h: "?p = (fst ?p, None)" by code_simp
  have k: "map_keys (transactionSchemas (example_registry ?ext)) = [''transfer'', ''vote'']"
    by code_simp
  have i: "dollar_id (example_schema ''transfer'') = ''transfer''" by code_simp
  have n: "normalizeId ''transfer'' = ''transfer''" by code_simp
  from remove_flag_replaces [OF h] show ?thesis
    unfolding k i n by simp
qed

text \<open>
  C3 as first stated fails: after \<^verbatim>\<open>extendTransaction\<close> with \<^verbatim>\<open>remove\<close> set on a
  registered id, the id is still a key of the registry, the engine still holds its
  three variants, and the composite schema still has its \<^verbatim>\<open>$ref\<close> alternative.
\<close>

theorem remove_flag_counterexample:
  "snd (extendTransaction (example_externals always_valid)
          (example_validator (example_externals always_valid))
          (example_schema ''transfer'') True) = None
   \<and> map_keys (transactionSchemas (fst (extendTransaction (example_externals always_valid)
          (example_validator (example_externals always_valid))
          (example_schema ''transfer'') True))) = [''transfer'']
   \<and> ajv_lookup (ajv (fst (extendTransaction (example_externals always_valid)
          (example_validator (example_externals always_valid))
          (example_schema ''transfer'') True))) ''transfer''
       = Some (example_schema ''transfer'')
   \<and> ajv_lookup (ajv (fst (extendTransaction (example_externals always_valid)
          (example_validator (example_externals always_valid))
          (example_schema ''transfer'') True))) ''transferSigned''
       = Some (example_schema ''transferSigned'')
   \<and> ajv_lookup (ajv (fst (extendTransaction (example_externals always_valid)
          (example_validator (example_externals always_valid))
          (example_schema ''transfer'') True))) ''transferStrict''
       = Some (example_schema ''transferStrict'')
   \<and> ajv_lookup (ajv (fst (extendTransaction (example_externals always_valid)
          (example_validator (example_externals always_valid))
          (example_schema ''transfer'') True))) ''transactions''
       = Some \<lparr>dollar_id = ''transactions'',
               members = [(''type'', JStr ''array''), (''additionalItems'', JBool False),
                          (''items'', JObj [(''anyOf'',
                             JArr [JObj [(''$ref'', JStr ''transferSigned'')]])])]\<rparr>"
  by code_simp

text \<open>
  C4. When the strict pass has failed and the engine's check throws in the tolerant
  pass (the tolerant engine having been built), \<^verbatim>\<open>applySchema\<close> returns normally with the
  value of the tolerant result, which is \<^verbatim>\<open>undefined\<close>; no failure is thrown and the oracle
  is not asked.
\<close>

theorem engine_failure_in_tolerant_pass:
  assumes "validate ext v (KeyRef ''block'') d = (v1, d1, r1)"
    and "res_error r1 = Some txt" and "txt \<noteq> []"
    and "validateException_loop ext 0 (transactionSchemas v1)
           (instantiateAjv ext [(''allErrors'', JBool True), (''verbose'', JBool True)])
         = Some ((reg', a'), None)"
    and "engine_check ext a' (KeyRef ''block'') d1 = Throws stack d2"
  shows "applySchema ext v d =
           Some (v1\<lparr>transactionSchemas := reg',
                    history := history v1 @
                      [NewEngine [(''allErrors'', JBool True), (''verbose'', JBool True)],
                       EngineValidate (KeyRef ''block'')]\<rparr>,
                 d2, Inr None)"
  using assms
  by (simp add: applySchema_def validateException_def validateSchema_def Let_def)

theorem engine_failure_in_tolerant_pass_witness:
  "outcome_of
     (applySchema (example_externals (throws_when_verbose [example_error ''.version'']))
        (example_validator (example_externals always_valid))
        (example_block (Some ''b1'') None)) = Some (Inr None)
   \<and> calls_of
     (applySchema (example_externals (throws_when_verbose [example_error ''.version'']))
        (example_validator (example_externals always_valid))
        (example_block (Some ''b1'') None))
     = Some [NewEngine [], EngineValidate (KeyRef ''block''),
             NewEngine [(''allErrors'', JBool True), (''verbose'', JBool True)],
             EngineValidate (KeyRef ''block'')]"
proof -
  let ?ext = "example_externals (throws_when_verbose [example_error ''.version''])"
  let ?v = "example_validator (example_externals always_valid)"
  let ?d = "example_block (Some ''b1'') None"
  let ?p1 = "validate ?ext ?v (KeyRef ''block'') ?d"
  let ?l = "the (validateException_loop ?ext 0 (transactionSchemas (fst ?p1))
           (instantiateAjv ?ext [(''allErrors'', JBool True), (''verbose'', JBool True)]))"
  have h1: "?p1 = (fst ?p1, fst (snd ?p1), snd (snd ?p1))" by simp
  have h2: "res_error (snd (snd ?p1)) = Some ''data is invalid''" by code_simp
  have h3: "''data is invalid'' \<noteq> []" by simp
  have h4: "validateException_loop ?ext 0 (transactionSchemas (fst ?p1))
           (instantiateAjv ?ext [(''allErrors'', JBool True), (''verbose'', JBool True)])
         = Some ((fst (fst ?l), snd (fst ?l)), None)" by code_simp
  have h5: "engine_check ?ext (snd (fst ?l)) (KeyRef ''block'') (fst (snd ?p1))
              = Throws (Some ''Error: no schema with key or ref'') ?d" by code_simp
  show ?thesis
    apply (subst engine_failure_in_tolerant_pass [OF h1 h2 h3 h4 h5])
    apply (subst engine_failure_in_tolerant_pass [OF h1 h2 h3 h4 h5])
    apply code_simp
    done
qed

text \<open>
  C5. When the strict pass against \<^verbatim>\<open>block\<close> yields a value and no error text,
  \<^verbatim>\<open>applySchema\<close> returns that value, which is the data object as the check left it. The
  only call to a collaborator is the one check of the default engine: no engine is
  built for a tolerant pass and the oracle is not asked.
\<close>

theorem strict_success_returns_record:
  assumes "validate ext v (KeyRef ''block'') d = (v1, d1, r)"
    and "res_error r = None"
    and "res_value r = Some x"
  shows "applySchema ext v d = Some (v1, d1, Inr (Some x))
         \<and> x = d1
         \<and> history v1 = history v @ [EngineValidate (KeyRef ''block'')]"
proof -
  from assms(1,2,3) have "applySchema ext v d = Some (v1, d1, Inr (Some x))"
    by (simp add: applySchema_def)
  moreover from assms(1,3) have "x = d1"
    by (auto simp: validate_def validateSchema_def Let_def split: checkOutcome.splits prod.splits)
  moreover from assms(1) have "history v1 = history v @ [EngineValidate (KeyRef ''block'')]"
    by (auto simp: validate_def split: prod.splits)
  ultimately show ?thesis by simp
qed

theorem strict_success_returns_record_witness:
  "applySchema (example_externals always_valid)
     (example_validator (example_externals always_valid))
     (example_block (Some ''b1'') (Some [example_tx None]))
   = Some (fst (validate (example_externals always_valid)
                  (example_validator (example_externals always_valid))
                  (KeyRef ''block'') (example_block (Some ''b1'') (Some [example_tx None]))),
           example_block (Some ''b1'') (Some [example_tx None]),
           Inr (Some (example_block (Some ''b1'') (Some [example_tx None]))))
   \<and> history (fst (validate (example_externals always_valid)
                  (example_validator (example_externals always_valid))
                  (KeyRef ''block'') (example_block (Some ''b1'') (Some [example_tx None]))))
     = [NewEngine [], EngineValidate (KeyRef ''block'')]"
proof -
  let ?ext = "example_externals always_valid"
  let ?v = "example_validator ?ext"
  let ?d = "example_block (Some ''b1'') (Some [example_tx None])"
  let ?p1 = "validate ?ext ?v (KeyRef ''block'') ?d"
  have h1: "?p1 = (fst ?p1, ?d, snd (snd ?p1))" by code_simp
  have h2: "res_error (snd (snd ?p1)) = None" by code_simp
  have h3: "res_value (snd (snd ?p1)) = Some ?d" by code_simp
  have h: "history ?v = [NewEngine []]" by code_simp
  from strict_success_returns_record [OF h1 h2 h3] h show ?thesis by simp
qed

text \<open>
  C6, as amended. After every call of \<^verbatim>\<open>extendTransaction\<close> that completes, with
  \<^verbatim>\<open>remove\<close> set or not, the schema that the default engine holds under \<^verbatim>\<open>transactions\<close>
  is the array schema without additional items whose items are any of
  \<^verbatim>\<open>{$ref: "<id>Signed"}\<close>, for the keys of the registry as it is after the call, in the
  order of the registry.
\<close>

theorem composite_schema_follows_registry:
  assumes "extendTransaction ext v s remove = (v', None)"
  shows "ajv_lookup (ajv v') ''transactions'' =
           Some \<lparr>dollar_id = ''transactions'',
                 members =
                   [(''type'', JStr ''array''),
                    (''additionalItems'', JBool False),
                    (''items'', JObj [(''anyOf'',
                       JArr (map (\<lambda>k. JObj [(''$ref'', JStr (k @ ''Signed''))])
                              (map_keys (transactionSchemas v'))))])]\<rparr>"
proof -
  from assms obtain reg' a' where
    e: "extendTransactionSchema ext (transactionSchemas v) (ajv v) s remove = ((reg', a'), None)"
    and v': "v' = v\<lparr>ajv := a', transactionSchemas := reg'\<rparr>"
    by (auto simp: extendTransaction_def split: prod.splits)
  from extend_composite [OF e] v' show ?thesis
    by (simp add: transactions_schema_def)
qed

theorem composite_schema_follows_registry_witness:
  "ajv_lookup
     (ajv (fst (extendTransaction (example_externals always_valid)
                  (example_validator (example_externals always_valid))
                  (example_schema ''vote'') False))) ''transactions''
   = Some \<lparr>dollar_id = ''transactions'',
           members = [(''type'', JStr ''array''), (''additionalItems'', JBool False),
                      (''items'', JObj [(''anyOf'',
                         JArr [JObj [(''$ref'', JStr ''transferSigned'')],
                               JObj [(''$ref'', JStr ''voteSigned'')]])])]\<rparr>"
proof -
  let ?ext = "example_externals always_valid"
  let ?p = "extendTransaction ?ext (example_validator ?ext) (example_schema ''vote'') False"
  have h: "?p = (fst ?p, None)" by code_simp
  have k: "map_keys (transactionSchemas (fst ?p)) = [''transfer'', ''vote'']" by code_simp
  from composite_schema_follows_registry [OF h] show ?thesis
    unfolding k by simp
qed

text \<open>
  C6 as first stated fails for a call that the engine aborts: the registry is
  written (line 168) before the calls of \<^verbatim>\<open>addSchema\<close> that can throw, and the rebuild comes
  last (line 174). With the id \<^verbatim>\<open>aSigned\<close> registered, registering \<^verbatim>\<open>a\<close> throws at the signed
  variant, whose key is taken; the registry then holds \<^verbatim>\<open>aSigned\<close> and \<^verbatim>\<open>a\<close>, and the
  composite schema of the engine still lists \<^verbatim>\<open>aSigned\<close> only.
\<close>

theorem stale_composite_counterexample:
  "snd (extendTransaction (example_externals always_valid)
          (make (example_externals always_valid) []) (example_schema ''aSigned'') False) = None
   \<and> snd (extendTransaction (example_externals always_valid)
          (fst (extendTransaction (example_externals always_valid)
                  (make (example_externals always_valid) [])
                  (example_schema ''aSigned'') False))
          (example_schema ''a'') False)
       = Some (EngineError (''schema with key or id '' @ [CHR 0x22] @ ''aSigned'' @ [CHR 0x22]
                              @ '' already exists''))
   \<and> map_keys (transactionSchemas
         (fst (extendTransaction (example_externals always_valid)
                 (fst (extendTransaction (example_externals always_valid)
                         (make (example_externals always_valid) [])
                         (example_schema ''aSigned'') False))
                 (example_schema ''a'') False)))
       = [''aSigned'', ''a'']
   \<and> ajv_lookup
         (ajv (fst (extendTransaction (example_externals always_valid)
                 (fst (extendTransaction (example_externals always_valid)
                         (make (example_externals always_valid) [])
                         (example_schema ''aSigned'') False))
                 (example_schema ''a'') False))) ''transactions''
       = Some \<lparr>dollar_id = ''transactions'',
               members = [(''type'', JStr ''array''), (''additionalItems'', JBool False),
                          (''items'', JObj [(''anyOf'',
                             JArr [JObj [(''$ref'', JStr ''aSignedSigned'')]])])]\<rparr>"
  by code_simp

text \<open>
  C7, as amended. From a state in which the id is not in the registry, or is in the
  registry and known to the default engine, registering the id twice, the second time
  with the final definition, leaves under \<^verbatim>\<open>transactions\<close> the same schema as registering
  the final definition once (all three calls completing): the array schema whose items
  are any of the \<^verbatim>\<open>$ref\<close> of the other keys of the registry, in their order, followed by
  the \<^verbatim>\<open>$ref\<close> of the id, which occurs once among the alternatives.
\<close>

theorem register_twice_idempotent:
  assumes "dollar_id s2 = dollar_id s1"
    and "dollar_id s1 \<in> set (map_keys (transactionSchemas v))
           \<longrightarrow> ajv_lookup (ajv v) (dollar_id s1) \<noteq> None"
    and "extendTransaction ext v s1 False = (v1, None)"
    and "extendTransaction ext v1 s2 False = (v2, None)"
    and "extendTransaction ext v s2 False = (w, None)"
  shows "ajv_lookup (ajv v2) ''transactions'' = ajv_lookup (ajv w) ''transactions''
         \<and> ajv_lookup (ajv v2) ''transactions'' =
             Some \<lparr>dollar_id = ''transactions'',
                   members =
                     [(''type'', JStr ''array''),
                      (''additionalItems'', JBool False),
                      (''items'', JObj [(''anyOf'',
                         JArr (map (\<lambda>k. JObj [(''$ref'', JStr (k @ ''Signed''))])
                                 (filter (\<lambda>k. k \<noteq> dollar_id s2)
                                    (map_keys (transactionSchemas v)))
                               @ [JObj [(''$ref'', JStr (dollar_id s2 @ ''Signed''))]]))])]\<rparr>
         \<and> count_list
              (map (\<lambda>k. JObj [(''$ref'', JStr (k @ ''Signed''))])
                 (filter (\<lambda>k. k \<noteq> dollar_id s2) (map_keys (transactionSchemas v)))
               @ [JObj [(''$ref'', JStr (dollar_id s2 @ ''Signed''))]])
              (JObj [(''$ref'', JStr (dollar_id s2 @ ''Signed''))]) = 1"
proof -
  let ?i = "dollar_id s1"
  let ?K = "map_keys (transactionSchemas v)"
  let ?end = "filter (\<lambda>k. k \<noteq> ?i) ?K @ [?i]"
  from assms(3) obtain reg1 a1 where
    e1: "extendTransactionSchema ext (transactionSchemas v) (ajv v) s1 False = ((reg1, a1), None)"
    and v1: "v1 = v\<lparr>ajv := a1, transactionSchemas := reg1\<rparr>"
    by (auto simp: extendTransaction_def split: prod.splits)
  from assms(4) v1 obtain reg2 a2 where
    e2: "extendTransactionSchema ext reg1 a1 s2 False = ((reg2, a2), None)"
    and v2: "v2 = v1\<lparr>ajv := a2, transactionSchemas := reg2\<rparr>"
    by (auto simp: extendTransaction_def split: prod.splits)
  from assms(5) obtain regw aw where
    ew: "extendTransactionSchema ext (transactionSchemas v) (ajv v) s2 False = ((regw, aw), None)"
    and w: "w = v\<lparr>ajv := aw, transactionSchemas := regw\<rparr>"
    by (auto simp: extendTransaction_def split: prod.splits)
  have not_in: "?i \<notin> set ?K \<Longrightarrow> filter (\<lambda>k. k \<noteq> ?i) ?K = ?K"
    by (auto simp: filter_id_conv)
  have k1: "map_keys reg1 = ?end"
    using extend_keys [OF e1] assms(2) not_in by (auto split: if_splits)
  have kw: "map_keys regw = ?end"
    using extend_keys [OF ew] assms(1,2) not_in by (auto split: if_splits)
  have "filter (\<lambda>k. k \<noteq> ?i) ?end = filter (\<lambda>k. k \<noteq> ?i) ?K"
    by simp
  then have k2: "map_keys reg2 = ?end"
    using extend_keys [OF e2] assms(1) k1 by (auto split: if_splits)
  have c2: "ajv_lookup a2 ''transactions'' = Some (transactions_schema ?end)"
    using extend_composite [OF e2] k2 by simp
  have cw: "ajv_lookup aw ''transactions'' = Some (transactions_schema ?end)"
    using extend_composite [OF ew] kw by simp
  have "count_list ?end ?i = 1" by (rule count_moved_to_end)
  then have one: "count_list (map (\<lambda>k. JObj [(''$ref'', JStr (k @ ''Signed''))]) ?end)
                    (JObj [(''$ref'', JStr (?i @ ''Signed''))]) = 1"
    unfolding count_branches .
  from c2 cw one v2 w assms(1) show ?thesis
    by (simp add: transactions_schema_def)
qed

theorem register_twice_idempotent_witness:
  "ajv_lookup
     (ajv (fst (extendTransaction (example_externals always_valid)
        (fst (extendTransaction (example_externals always_valid)
                (example_registry (example_externals always_valid))
                (example_schema ''transfer'') False))
        \<lparr>dollar_id = ''transfer'', members = []\<rparr> False))) ''transactions''
   = Some \<lparr>dollar_id = ''transactions'',
           members = [(''type'', JStr ''array''), (''additionalItems'', JBool False),
                      (''items'', JObj [(''anyOf'',
                         JArr [JObj [(''$ref'', JStr ''voteSigned'')],
                               JObj [(''$ref'', JStr ''transferSigned'')]])])]\<rparr>
   \<and> ajv_lookup
     (ajv (fst (extendTransaction (example_externals always_valid)
        (example_registry (example_externals always_valid))
        \<lparr>dollar_id = ''transfer'', members = []\<rparr> False))) ''transactions''
   = Some \<lparr>dollar_id = ''transactions'',
           members = [(''type'', JStr ''array''), (''additionalItems'', JBool False),
                      (''items'', JObj [(''anyOf'',
                         JArr [JObj [(''$ref'', JStr ''voteSigned'')],
                               JObj [(''$ref'', JStr ''transferSigned'')]])])]\<rparr>"
proof -
  let ?ext = "example_externals always_valid"
  let ?v = "example_registry ?ext"
  let ?s1 = "example_schema ''transfer''"
  let ?s2 = "\<lparr>dollar_id = ''transfer'', members = []\<rparr>"
  let ?p1 = "extendTransaction ?ext ?v ?s1 False"
  let ?p2 = "extendTransaction ?ext (fst ?p1) ?s2 False"
  let ?pw = "extendTransaction ?ext ?v ?s2 False"
  have h1: "dollar_id ?s2 = dollar_id ?s1" by code_simp
  have h2: "dollar_id ?s1 \<in> set (map_keys (transactionSchemas ?v))
              \<longrightarrow> ajv_lookup (ajv ?v) (dollar_id ?s1) \<noteq> None" by code_simp
  have h3: "?p1 = (fst ?p1, None)" by code_simp
  have h4: "?p2 = (fst ?p2, None)" by code_simp
  have h5: "?pw = (fst ?pw, None)" by code_simp
  have k: "map_keys (transactionSchemas ?v) = [''transfer'', ''vote'']" by code_simp
  from register_twice_idempotent [OF h1 h2 h3 h4 h5] show ?thesis
    unfolding k by auto
qed

text \<open>
  C7 as first stated fails when the id is in the registry and the default engine
  no longer holds its schema, after \<^verbatim>\<open>removeSchema\<close> of the validator was called with the
  id and its two variants. One registration then overwrites the entry of the registry
  where it stands; a second one finds the schema in the engine, deletes the entry and
  appends it. The two composite schemas list the alternatives in different orders.
\<close>

theorem unsynced_registration_counterexample:
  "map_keys (transactionSchemas (unsynced_registry (example_externals always_valid)))
     = [''transfer'', ''vote'']
   \<and> snd (extendTransaction (example_externals always_valid)
          (unsynced_registry (example_externals always_valid))
          (example_schema ''transfer'') False) = None
   \<and> snd (extendTransaction (example_externals always_valid)
          (fst (extendTransaction (example_externals always_valid)
                  (unsynced_registry (example_externals always_valid))
                  (example_schema ''transfer'') False))
          (example_schema ''transfer'') False) = None
   \<and> ajv_lookup
        (ajv (fst (extendTransaction (example_externals always_valid)
          (fst (extendTransaction (example_externals always_valid)
                  (unsynced_registry (example_externals always_valid))
                  (example_schema ''transfer'') False))
          (example_schema ''transfer'') False))) ''transactions''
      = Some \<lparr>dollar_id = ''transactions'',
              members = [(''type'', JStr ''array''), (''additionalItems'', JBool False),
                         (''items'', JObj [(''anyOf'',
                            JArr [JObj [(''$ref'', JStr ''voteSigned'')],
                                  JObj [(''$ref'', JStr ''transferSigned'')]])])]\<rparr>
   \<and> ajv_lookup
        (ajv (fst (extendTransaction (example_externals always_valid)
                  (unsynced_registry (example_externals always_valid))
                  (example_schema ''transfer'') False))) ''transactions''
      = Some \<lparr>dollar_id = ''transactions'',
              members = [(''type'', JStr ''array''), (''additionalItems'', JBool False),
                         (''items'', JObj [(''anyOf'',
                            JArr [JObj [(''$ref'', JStr ''transferSigned'')],
                                  JObj [(''$ref'', JStr ''voteSigned'')]])])]\<rparr>"
  by code_simp



text \<open>
  C9. The catch branch of \<^verbatim>\<open>validateSchema\<close> returns \<^verbatim>\<open>error.stack\<close>, not the text of the
  failure: for a thrown value without \<^verbatim>\<open>stack\<close> the result carries no error text at all.
  With no transaction type registered and a check that throws such a value,
  \<^verbatim>\<open>validate("block", data)\<close> gives \<^verbatim>\<open>{ value: undefined, error: undefined, errors: [] }\<close>,
  and \<^verbatim>\<open>applySchema\<close>, which reads a missing error text as the success of the strict pass,
  returns \<^verbatim>\<open>undefined\<close> without a tolerant pass.
\<close>

theorem validate_throw_without_stack:
  "snd (snd (validate (example_externals throws_without_stack)
               (make (example_externals throws_without_stack) []) (KeyRef ''block'')
               (example_block (Some ''b1'') None)))
     = \<lparr>res_value = None, res_error = None, res_errors = Some []\<rparr>
   \<and> outcome_of
       (applySchema (example_externals throws_without_stack)
          (make (example_externals throws_without_stack) [])
          (example_block (Some ''b1'') None))
     = Some (Inr None)"
  by code_simp

text \<open>
  C10. When \<^verbatim>\<open>applySchema\<close> reaches an error whose path matches \<^verbatim>\<open>.transactions[N]\<close>: if
  the block has an array of transactions with no element at \<open>N\<close>, the run ends with a
  \<^verbatim>\<open>TypeError\<close>, not with \<^verbatim>\<open>BlockSchemaError\<close>; if the block has no array of transactions,
  the error is not fatal, the oracle is not asked for it, and the run goes on with the
  remaining errors.
\<close>

theorem missing_transaction_cases:
  assumes "validate ext v (KeyRef ''block'') d = (v1, d1, r1)"
    and "res_error r1 = Some txt" and "txt \<noteq> []"
    and "validateException ext v1 (KeyRef ''block'') d1 = Some (v2, d2, Inr r2)"
    and "res_errors r2 = Some (pre @ err # post)"
    and "applySchema_loop ext v2 d2 pre = (v3, None)"
    and "match_transactions (dataPath err) = Some txIndex"
  shows "(\<forall>txs. transactions d2 = Some txs \<and> element_at txs txIndex = None \<longrightarrow>
            applySchema ext v d = Some (v3, d2, Inl TypeError))
         \<and> (transactions d2 = None \<longrightarrow>
              is_fatal ext v3 d2 err = (v3, Inr False) \<and>
              applySchema ext v d =
                (case applySchema_loop ext v3 d2 post of
                   (v4, Some e) \<Rightarrow> Some (v4, d2, Inl e)
                 | (v4, None) \<Rightarrow> Some (v4, d2, Inr (res_value r2))))"
proof -
  have "applySchema_loop ext v2 d2 (pre @ err # post) =
          applySchema_loop ext v3 d2 (err # post)"
    using assms(6) by (rule applySchema_loop_append)
  with applySchema_second_pass [OF assms(1-5)] assms(7) show ?thesis
    by (simp add: is_fatal_def)
qed

theorem missing_transaction_cases_witness:
  "outcome_of
     (applySchema (example_externals (always_errors [example_error ''.transactions[1].amount'']))
        (example_validator (example_externals always_valid))
        (example_block (Some ''b1'') (Some [example_tx (Some ''grandfathered'')])))
     = Some (Inl TypeError)
   \<and> outcome_of
     (applySchema (example_externals (always_errors [example_error ''.transactions[1].amount'']))
        (example_validator (example_externals always_valid))
        (example_block (Some ''b1'') None))
     = Some (Inr (Some (example_block (Some ''b1'') None)))"
proof -
  let ?ext = "example_externals (always_errors [example_error ''.transactions[1].amount''])"
  let ?v = "example_validator (example_externals always_valid)"
  let ?d = "example_block (Some ''b1'') (Some [example_tx (Some ''grandfathered'')])"
  let ?p1 = "validate ?ext ?v (KeyRef ''block'') ?d"
  let ?p2 = "the (validateException ?ext (fst ?p1) (KeyRef ''block'') (fst (snd ?p1)))"
  let ?r2 = "projr (snd (snd ?p2))"
  let ?e = "example_block (Some ''b1'') None"
  let ?q1 = "validate ?ext ?v (KeyRef ''block'') ?e"
  let ?q2 = "the (validateException ?ext (fst ?q1) (KeyRef ''block'') (fst (snd ?q1)))"
  let ?s2 = "projr (snd (snd ?q2))"
  have h1: "?p1 = (fst ?p1, fst (snd ?p1), snd (snd ?p1))" by simp
  have h2: "res_error (snd (snd ?p1)) = Some ''data is invalid''" by code_simp
  have h3: "''data is invalid'' \<noteq> []" by simp
  have h4: "validateException ?ext (fst ?p1) (KeyRef ''block'') (fst (snd ?p1)) =
              Some (fst ?p2, fst (snd ?p2), Inr ?r2)" by code_simp
  have h5: "res_errors ?r2 = Some ([] @ example_error ''.transactions[1].amount'' # [])"
    by code_simp
  have h6: "applySchema_loop ?ext (fst ?p2) (fst (snd ?p2)) [] = (fst ?p2, None)" by simp
  have h7: "match_transactions (dataPath (example_error ''.transactions[1].amount'')) = Some ''1''"
    by code_simp
  have a: "transactions (fst (snd ?p2)) = Some [example_tx (Some ''grandfathered'')]
           \<and> element_at [example_tx (Some ''grandfathered'')] ''1'' = None" by code_simp
  have g1: "?q1 = (fst ?q1, fst (snd ?q1), snd (snd ?q1))" by simp
  have g2: "res_error (snd (snd ?q1)) = Some ''data is invalid''" by code_simp
  have g4: "validateException ?ext (fst ?q1) (KeyRef ''block'') (fst (snd ?q1)) =
              Some (fst ?q2, fst (snd ?q2), Inr ?s2)" by code_simp
  have g5: "res_errors ?s2 = Some ([] @ example_error ''.transactions[1].amount'' # [])"
    by code_simp
  have g6: "applySchema_loop ?ext (fst ?q2) (fst (snd ?q2)) [] = (fst ?q2, None)" by simp
  have b: "transactions (fst (snd ?q2)) = None" by code_simp
  have v: "res_value ?s2 = Some ?e" by code_simp
  have first: "applySchema ?ext ?v ?d = Some (fst ?p2, fst (snd ?p2), Inl TypeError)"
    using missing_transaction_cases [OF h1 h2 h3 h4 h5 h6 h7] a by blast
  have second: "applySchema ?ext ?v ?e = Some (fst ?q2, fst (snd ?q2), Inr (res_value ?s2))"
    using missing_transaction_cases [OF g1 g2 h3 g4 g5 g6 h7] b by simp
  show ?thesis
    unfolding first second v outcome_of_def by simp
qed

end
